theory Spec2Isabelle
  imports Main "HOL-Library.Log_Nat"
begin

section \<open>Strings, exceptions and the builtins the report engine calls\<close>

text \<open>
  A Python \<open>str\<close> is a sequence of Unicode code points: slicing (\<open>line[:-1]\<close>) and
  \<open>split\<close> count code points, and the column labels of the report are Cyrillic. A string
  is therefore a list of code points, each a natural number; \<open>ascii\<close> reads an ASCII
  literal as such a list.
\<close>

type_synonym ustring = "nat list"

definition ascii :: "string \<Rightarrow> ustring" where
  "ascii s = map of_char s"

text \<open>
  The exceptions that the modelled statements raise. \<open>EmptyReportError\<close> is the error
  kind that the specification names for saving an empty report; no statement of
  \<open>report.py\<close> raises it.
\<close>

datatype error =
    ValueError
  | IndexError
  | OverflowError
  | ZeroDivisionError
  | FileNotFoundError
  | EmptyReportError

subsection \<open>\<open>str.split(sep)\<close>\<close>

text \<open>
  \<open>split_at sep s\<close> cuts \<open>s\<close> at the occurrences of \<open>sep\<close> found from left to right,
  without overlap, and keeps empty fields. \<open>str.split\<close> raises \<open>ValueError\<close> on an empty
  separator.
\<close>

fun split_at :: "ustring \<Rightarrow> ustring \<Rightarrow> ustring list" where
  "split_at sep [] = [[]]"
| "split_at sep (c # cs) =
     (if take (length sep) (c # cs) = sep
      then [] # split_at sep (drop (length sep - 1) cs)
      else (case split_at sep cs of [] \<Rightarrow> [[c]] | f # fs \<Rightarrow> (c # f) # fs))"

definition py_split :: "ustring \<Rightarrow> ustring \<Rightarrow> error + ustring list" where
  "py_split s sep = (if sep = [] then Inl ValueError else Inr (split_at sep s))"

subsection \<open>\<open>int(str)\<close> and \<open>str(int)\<close>\<close>

text \<open>
  The functions of the report engine take the interpreter's \<open>int(str)\<close> as an argument
  \<open>to_int\<close> (\<open>None\<close> where \<open>int\<close> raises \<open>ValueError\<close>), so what is proved of them holds
  whatever literals the interpreter accepts. \<open>py_int\<close> is that conversion on ASCII
  text: surrounding whitespace is dropped, then an optional sign and decimal digits follow,
  with single underscores allowed between digits. It is the instance used to evaluate the
  engine on concrete inputs. (The interpreter's limit on the number of digits is a setting
  of the process and is taken as switched off.)
\<close>

definition is_space :: "nat \<Rightarrow> bool" where
  "is_space c = (c = 32 \<or> (9 \<le> c \<and> c \<le> 13))"

definition is_digit :: "nat \<Rightarrow> bool" where
  "is_digit c = (48 \<le> c \<and> c \<le> 57)"

definition strip :: "ustring \<Rightarrow> ustring" where
  "strip s = rev (dropWhile is_space (rev (dropWhile is_space s)))"

fun int_digits :: "nat \<Rightarrow> ustring \<Rightarrow> nat option" where
  "int_digits acc [] = Some acc"
| "int_digits acc [c] = (if is_digit c then Some (10 * acc + (c - 48)) else None)"
| "int_digits acc (c # d # cs) =
     (if is_digit c then int_digits (10 * acc + (c - 48)) (d # cs)
      else if c = 95 \<and> is_digit d then int_digits acc (d # cs)
      else None)"

definition int_body :: "ustring \<Rightarrow> nat option" where
  "int_body s = (case s of [] \<Rightarrow> None
     | c # cs \<Rightarrow> if is_digit c then int_digits 0 s else None)"

definition py_int :: "ustring \<Rightarrow> int option" where
  "py_int s = (case strip s of [] \<Rightarrow> None
     | c # cs \<Rightarrow>
         if c = 45 then map_option (\<lambda>n. - int n) (int_body cs)
         else if c = 43 then map_option int (int_body cs)
         else map_option int (int_body (c # cs)))"

fun str_nat :: "nat \<Rightarrow> ustring" where
  "str_nat n = (if n < 10 then [48 + n] else str_nat (n div 10) @ [48 + n mod 10])"

declare str_nat.simps [simp del]

definition str_int :: "int \<Rightarrow> ustring" where
  "str_int i = (if i < 0 then 45 # str_nat (nat (- i)) else str_nat (nat i))"

subsection \<open>Iterating a text file\<close>

text \<open>
  \<open>for line in file\<close> yields the lines of the text with their terminators; only the last
  line may lack one. File contents are the text as the reader sees it, after the
  translation of line ends to \<open>\n\<close> (code point 10).
\<close>

fun file_lines :: "ustring \<Rightarrow> ustring list" where
  "file_lines [] = []"
| "file_lines (c # cs) =
     (if c = 10 then [10] # file_lines cs
      else (case file_lines cs of [] \<Rightarrow> [[c]] | l # ls \<Rightarrow> (c # l) # ls))"

subsection \<open>A \<open>defaultdict\<close> in insertion order\<close>

text \<open>
  A Python dictionary iterates in the order in which its keys were first inserted, so it
  is an association list with distinct keys. \<open>dd_modify dflt f k d\<close> is
  \<open>d[k] = f(d[k])\<close> on a \<open>defaultdict\<close> whose factory gives \<open>dflt\<close>: a present key is
  updated in place, a missing one is appended.
\<close>

fun dd_modify :: "'v \<Rightarrow> ('v \<Rightarrow> 'v) \<Rightarrow> 'k \<Rightarrow> ('k \<times> 'v) list \<Rightarrow> ('k \<times> 'v) list" where
  "dd_modify dflt f k [] = [(k, f dflt)]"
| "dd_modify dflt f k ((k', v) # rest) =
     (if k' = k then (k', f v) # rest else (k', v) # dd_modify dflt f k rest)"

section \<open>The hierarchy builder\<close>

text \<open>
  \<open>generate_hierarchy\<close> skips line 0, and for every other line runs
  \<open>_, department, team, *_ = line.split(separator)\<close> and
  \<open>departments_list[department].add(team)\<close> on a \<open>defaultdict(set)\<close>. The unpacking
  raises \<open>ValueError\<close> when the line has fewer than three fields.
\<close>

type_synonym hierarchy = "(ustring \<times> ustring set) list"

definition hierarchy_record :: "ustring \<Rightarrow> ustring \<Rightarrow> error + ustring \<times> ustring" where
  "hierarchy_record line sep =
     (case py_split line sep of
        Inl e \<Rightarrow> Inl e
      | Inr columns \<Rightarrow>
          (case columns of
             _ # department # team # _ \<Rightarrow> Inr (department, team)
           | _ \<Rightarrow> Inl ValueError))"

fun hierarchy_loop :: "ustring \<Rightarrow> ustring list \<Rightarrow> hierarchy \<Rightarrow> error + hierarchy" where
  "hierarchy_loop sep [] departments_list = Inr departments_list"
| "hierarchy_loop sep (line # rest) departments_list =
     (case hierarchy_record line sep of
        Inl e \<Rightarrow> Inl e
      | Inr (department, team) \<Rightarrow>
          hierarchy_loop sep rest (dd_modify {} (insert team) department departments_list))"

definition generate_hierarchy :: "ustring list \<Rightarrow> ustring \<Rightarrow> error + hierarchy" where
  "generate_hierarchy file sep = hierarchy_loop sep (drop 1 file) []"

section \<open>Floats and true division\<close>

text \<open>
  A Python \<open>float\<close> is an IEEE 754 binary64 number: 53 significant bits, the smallest
  unit in the last place \<open>2 powi -1074\<close>. A finite float is modelled by its exact
  rational value. \<open>int / int\<close> gives the float nearest to the exact quotient, ties going
  to the even significand, and raises \<open>OverflowError\<close> when that float would not be
  finite.
\<close>

type_synonym pyfloat = rat

definition round_half_even :: "rat \<Rightarrow> int" where
  "round_half_even x =
     (let f = \<lfloor>x\<rfloor>; r = x - of_int f
      in if r < 1 / 2 then f else if 1 / 2 < r then f + 1 else if even f then f else f + 1)"

text \<open>\<open>ilog2 x\<close> is the integer \<open>e\<close> with \<open>2 powi e \<le> x < 2 powi (e + 1)\<close>, for \<open>0 < x\<close>.\<close>

definition ilog2 :: "rat \<Rightarrow> int" where
  "ilog2 x =
     (let k = bitlen (fst (quotient_of x)) - bitlen (snd (quotient_of x))
      in if power_int 2 k \<le> x then k else k - 1)"

definition ulp_exponent :: "rat \<Rightarrow> int" where
  "ulp_exponent x = max (ilog2 \<bar>x\<bar> - 52) (- 1074)"

definition round_double :: "rat \<Rightarrow> pyfloat" where
  "round_double x =
     of_int (round_half_even (x / power_int 2 (ulp_exponent x))) * power_int 2 (ulp_exponent x)"

definition true_div :: "int \<Rightarrow> int \<Rightarrow> error + pyfloat" where
  "true_div a b =
     (if b = 0 then Inl ZeroDivisionError
      else let r = round_double (of_int a / of_int b)
           in if 2 ^ 1024 \<le> \<bar>r\<bar> then Inl OverflowError else Inr r)"

section \<open>The aggregator\<close>

text \<open>
  One entry of the list that \<open>generate_report_by_department\<close> returns: a dictionary with
  the four keys below, in this order. The salary range is kept as the text
  \<open>f'{min(salaries)} - {max(salaries)}'\<close>, as the source does.
\<close>

record department_summary =
  name :: ustring
  headcount :: int
  salary_range :: ustring
  average_salary :: pyfloat

text \<open>
  The first loop runs \<open>_, department, *_, salary = line.split(separator)\<close> and
  \<open>departments_dict[department].append(int(salary))\<close> on every line but line 0. The
  unpacking needs three fields or more; \<open>salary\<close> is the last one.
\<close>

definition salary_record ::
  "(ustring \<Rightarrow> int option) \<Rightarrow> ustring \<Rightarrow> ustring \<Rightarrow> error + ustring \<times> int" where
  "salary_record to_int line sep =
     (case py_split line sep of
        Inl e \<Rightarrow> Inl e
      | Inr columns \<Rightarrow>
          (case columns of
             _ # department # f # fs \<Rightarrow>
               (case to_int (last (f # fs)) of
                  None \<Rightarrow> Inl ValueError
                | Some salary \<Rightarrow> Inr (department, salary))
           | _ \<Rightarrow> Inl ValueError))"

fun salaries_loop ::
  "(ustring \<Rightarrow> int option) \<Rightarrow> ustring \<Rightarrow> ustring list \<Rightarrow> (ustring \<times> int list) list
    \<Rightarrow> error + (ustring \<times> int list) list" where
  "salaries_loop to_int sep [] departments_dict = Inr departments_dict"
| "salaries_loop to_int sep (line # rest) departments_dict =
     (case salary_record to_int line sep of
        Inl e \<Rightarrow> Inl e
      | Inr (department, salary) \<Rightarrow>
          salaries_loop to_int sep rest
            (dd_modify [] (\<lambda>salaries. salaries @ [salary]) department departments_dict))"

text \<open>
  The second loop builds one dictionary per key of \<open>departments_dict\<close>. \<open>min\<close> and \<open>max\<close>
  raise \<open>ValueError\<close> on an empty list; the lists of \<open>departments_dict\<close> are never empty.
\<close>

definition department_entry :: "ustring \<Rightarrow> int list \<Rightarrow> error + department_summary" where
  "department_entry department salaries =
     (case salaries of
        [] \<Rightarrow> Inl ValueError
      | s # ss \<Rightarrow>
          (case true_div (sum_list salaries) (int (length salaries)) of
             Inl e \<Rightarrow> Inl e
           | Inr avg \<Rightarrow>
               Inr \<lparr>name = department,
                    headcount = int (length salaries),
                    salary_range = str_int (fold min ss s) @ [32, 45, 32] @ str_int (fold max ss s),
                    average_salary = avg\<rparr>))"

fun report_loop :: "(ustring \<times> int list) list \<Rightarrow> error + department_summary list" where
  "report_loop [] = Inr []"
| "report_loop ((department, salaries) # rest) =
     (case department_entry department salaries of
        Inl e \<Rightarrow> Inl e
      | Inr entry \<Rightarrow>
          (case report_loop rest of
             Inl e \<Rightarrow> Inl e
           | Inr entries \<Rightarrow> Inr (entry # entries)))"

definition generate_report_by_department ::
  "(ustring \<Rightarrow> int option) \<Rightarrow> ustring list \<Rightarrow> ustring \<Rightarrow> error + department_summary list" where
  "generate_report_by_department to_int file sep =
     (case salaries_loop to_int sep (drop 1 file) [] of
        Inl e \<Rightarrow> Inl e
      | Inr departments_dict \<Rightarrow> report_loop departments_dict)"

section \<open>The renderer\<close>

text \<open>
  The keys of a report entry are Cyrillic words in the source (in transliteration
  \<open>Nazvanie\<close>, \<open>Chislennost'\<close>, \<open>Vilka zarplat\<close> and \<open>Srednyaya zarplata\<close>: name,
  headcount, salary range, average salary); \<open>labels\<close> lists their code points.
\<close>

definition labels :: "ustring list" where
  "labels =
     [[1053, 1072, 1079, 1074, 1072, 1085, 1080, 1077],
      [1063, 1080, 1089, 1083, 1077, 1085, 1085, 1086, 1089, 1090, 1100],
      [1042, 1080, 1083, 1082, 1072, 32, 1079, 1072, 1088, 1087, 1083, 1072, 1090],
      [1057, 1088, 1077, 1076, 1085, 1103, 1103, 32, 1079, 1072, 1088, 1087, 1083, 1072, 1090,
       1072]]"

text \<open>
  The values of an entry as an f-string prints them. The text of a float is produced by
  the interpreter's shortest-digits routine, which the renderer takes as the argument
  \<open>float_str\<close>.
\<close>

definition summary_values :: "(pyfloat \<Rightarrow> ustring) \<Rightarrow> department_summary \<Rightarrow> ustring list" where
  "summary_values float_str d =
     [name d, str_int (headcount d), salary_range d, float_str (average_salary d)]"

text \<open>
  \<open>csv_line\<close> is the inner loop of \<open>save_department_report\<close> with the slice that follows
  it: every item is followed by the separator, then \<open>line[:-1]\<close> drops the last code point.
\<close>

definition csv_line :: "ustring list \<Rightarrow> ustring \<Rightarrow> ustring" where
  "csv_line items sep = butlast (concat (map (\<lambda>item. item @ sep) items))"

fun write_rows ::
  "(pyfloat \<Rightarrow> ustring) \<Rightarrow> ustring \<Rightarrow> department_summary list \<Rightarrow> ustring \<Rightarrow> ustring" where
  "write_rows float_str sep [] written = written"
| "write_rows float_str sep (department # rest) written =
     write_rows float_str sep rest
       (written @ csv_line (summary_values float_str department) sep @ [10])"

text \<open>
  The file system maps a file name to the text of the file. \<open>open(name, 'w+')\<close> creates
  the file or empties it before anything else runs; \<open>departments_list[0]\<close> raises
  \<open>IndexError\<close> on an empty list, with the file already open.
\<close>

type_synonym files = "ustring \<rightharpoonup> ustring"

definition save_department_report ::
  "(pyfloat \<Rightarrow> ustring) \<Rightarrow> department_summary list \<Rightarrow> ustring \<Rightarrow> ustring \<Rightarrow> files
    \<Rightarrow> (error + unit) \<times> files" where
  "save_department_report float_str departments_list output_filename sep fs =
     (case departments_list of
        [] \<Rightarrow> (Inl IndexError, fs(output_filename \<mapsto> []))
      | first # _ \<Rightarrow>
          (Inr (),
           fs(output_filename \<mapsto>
                write_rows float_str sep departments_list (csv_line labels sep @ [10]))))"

text \<open>
  Console output is the list of the lines printed. A Python set iterates in an order the
  language does not fix; \<open>set_iter\<close> is that order.
\<close>

definition print_department_hierarchy ::
  "(ustring set \<Rightarrow> ustring list) \<Rightarrow> hierarchy \<Rightarrow> ustring list" where
  "print_department_hierarchy set_iter departments_list =
     concat (map (\<lambda>(department, teams).
        ([1044, 1077, 1087, 1072, 1088, 1090, 1072, 1084, 1077, 1085, 1090, 58, 32] @ department)
        # map (\<lambda>team. [9, 1050, 1086, 1084, 1072, 1085, 1076, 1072, 58, 32] @ team)
            (set_iter teams)) departments_list)"

definition print_department_report ::
  "(pyfloat \<Rightarrow> ustring) \<Rightarrow> department_summary list \<Rightarrow> ustring list" where
  "print_department_report float_str departments_list =
     concat (map (\<lambda>department.
        map (\<lambda>(property_name, property_value). property_name @ [58, 32] @ property_value)
          (zip labels (summary_values float_str department)) @ [[]]) departments_list)"

section \<open>The entry point\<close>

text \<open>
  \<open>parse_parameters\<close> calls \<open>validate_files\<close> on the names and the separator before
  \<open>generate_report\<close> runs. It raises \<open>ValueError\<close> when the output file exists and
  \<open>filecmp.cmp\<close> finds it the same as the input (\<open>filecmp.cmp\<close> raises
  \<open>FileNotFoundError\<close> when the input is missing), when the input is missing, and when the
  part of the input name after its last dot is not \<open>csv\<close>. It then reads two lines with
  \<open>readline\<close>, which gives the empty string at the end of the file, and checks the second
  one only: \<open>int(splitted_line[5])\<close> must succeed and the line must have exactly six
  fields. \<open>filecmp.cmp\<close> compares sizes and modification times before contents; its
  answer is the argument \<open>filecmp_cmp\<close>.
\<close>

definition second_line :: "ustring \<Rightarrow> ustring" where
  "second_line text = (case drop 1 (file_lines text) of [] \<Rightarrow> [] | line # _ \<Rightarrow> line)"

definition validate_files ::
  "(ustring \<Rightarrow> int option) \<Rightarrow> (ustring \<Rightarrow> ustring \<Rightarrow> bool) \<Rightarrow> files
    \<Rightarrow> ustring \<Rightarrow> ustring \<Rightarrow> ustring \<Rightarrow> error + unit" where
  "validate_files to_int filecmp_cmp fs input_filename output_filename sep =
     (if fs output_filename \<noteq> None \<and> fs input_filename = None then Inl FileNotFoundError
      else if fs output_filename \<noteq> None \<and> filecmp_cmp input_filename output_filename
      then Inl ValueError
      else
        (case fs input_filename of
           None \<Rightarrow> Inl ValueError
         | Some text \<Rightarrow>
             if last (split_at [46] input_filename) \<noteq> ascii ''csv'' then Inl ValueError
             else
               (case py_split (second_line text) sep of
                  Inl e \<Rightarrow> Inl e
                | Inr splitted_line \<Rightarrow>
                    if length splitted_line \<le> 5 then Inl ValueError
                    else
                      (case to_int (splitted_line ! 5) of
                         None \<Rightarrow> Inl ValueError
                       | Some _ \<Rightarrow>
                           if length splitted_line \<noteq> 6 then Inl ValueError else Inr ()))))"

text \<open>
  \<open>generate_report\<close> opens the input for reading (\<open>FileNotFoundError\<close> when it is
  missing) and runs the mode chosen; any option other than \<open>'1'\<close> and \<open>'2'\<close> is the file
  mode. The result is the outcome, the file system afterwards and the lines printed.
\<close>

definition generate_report ::
  "(ustring \<Rightarrow> int option) \<Rightarrow> (pyfloat \<Rightarrow> ustring) \<Rightarrow> (ustring set \<Rightarrow> ustring list) \<Rightarrow> files
    \<Rightarrow> ustring \<Rightarrow> ustring \<Rightarrow> ustring \<Rightarrow> ustring \<Rightarrow> (error + unit) \<times> files \<times> ustring list" where
  "generate_report to_int float_str set_iter fs input_filename output_filename sep option =
     (case fs input_filename of
        None \<Rightarrow> (Inl FileNotFoundError, fs, [])
      | Some text \<Rightarrow>
          if option = [49] then
            (case generate_hierarchy (file_lines text) sep of
               Inl e \<Rightarrow> (Inl e, fs, [])
             | Inr departments_hierarchy \<Rightarrow>
                 (Inr (), fs, print_department_hierarchy set_iter departments_hierarchy))
          else
            (case generate_report_by_department to_int (file_lines text) sep of
               Inl e \<Rightarrow> (Inl e, fs, [])
             | Inr departments_report \<Rightarrow>
                 if option = [50] then
                   (Inr (), fs, print_department_report float_str departments_report)
                 else
                   (case save_department_report float_str departments_report output_filename
                           sep fs of
                      (outcome, fs') \<Rightarrow> (outcome, fs', []))))"

section \<open>Notions used to state the properties\<close>

text \<open>The value that a \<open>defaultdict\<close> with factory value \<open>dflt\<close> holds at a key.\<close>

definition value_at :: "'v \<Rightarrow> ('k \<times> 'v) list \<Rightarrow> 'k \<Rightarrow> 'v" where
  "value_at dflt d k = (case map_of d k of None \<Rightarrow> dflt | Some v \<Rightarrow> v)"

text \<open>No team name is a member of the team sets of two different departments.\<close>

definition exclusive_teams :: "hierarchy \<Rightarrow> bool" where
  "exclusive_teams h =
     (\<forall>(d1, ts1) \<in> set h. \<forall>(d2, ts2) \<in> set h. d1 \<noteq> d2 \<longrightarrow> ts1 \<inter> ts2 = {})"

text \<open>
  A data line with a wrong field count, in the sense of the format that \<open>validate_files\<close>
  checks on the first data line: it does not split into exactly six fields.
\<close>

definition wrong_field_count :: "ustring \<Rightarrow> ustring \<Rightarrow> bool" where
  "wrong_field_count line sep = (length (split_at sep line) \<noteq> 6)"

text \<open>
  A data line that the aggregator refuses: it splits into fewer than three fields, or
  \<open>int\<close> rejects its last field.
\<close>

definition refused_line :: "(ustring \<Rightarrow> int option) \<Rightarrow> ustring \<Rightarrow> ustring \<Rightarrow> bool" where
  "refused_line to_int line sep =
     (length (split_at sep line) < 3 \<or> to_int (last (split_at sep line)) = None)"

text \<open>
  The distinct elements of a list in the order of their first occurrence, and the integer
  salaries of a department: the values of \<open>int\<close> on the last field of the data lines whose
  field 1 is the department, in the order of the lines.
\<close>

primrec first_seen :: "'a list \<Rightarrow> 'a list" where
  "first_seen [] = []"
| "first_seen (x # xs) = x # filter (\<lambda>y. y \<noteq> x) (first_seen xs)"

definition salaries_of ::
  "(ustring \<Rightarrow> int option) \<Rightarrow> ustring \<Rightarrow> ustring list \<Rightarrow> ustring \<Rightarrow> int list" where
  "salaries_of to_int sep file department =
     List.map_filter
       (\<lambda>line. if split_at sep line ! 1 = department
                then to_int (last (split_at sep line)) else None)
       (drop 1 file)"

text \<open>
  \<open>sep.join(items)\<close>, and the delimited text that the specification describes for a
  report: the labels joined by the separator, then one line per entry with its four values
  joined by the separator, every line ended by \<open>\n\<close>.
\<close>

fun join :: "ustring \<Rightarrow> ustring list \<Rightarrow> ustring" where
  "join sep [] = []"
| "join sep [item] = item"
| "join sep (item # next_item # rest) = item @ sep @ join sep (next_item # rest)"

definition delimited_text ::
  "(pyfloat \<Rightarrow> ustring) \<Rightarrow> department_summary list \<Rightarrow> ustring \<Rightarrow> ustring" where
  "delimited_text float_str departments_list sep =
     join sep labels @ [10]
     @ concat (map (\<lambda>d. join sep (summary_values float_str d) @ [10]) departments_list)"

text \<open>
  Reading a delimited text back: every line without its line end, split at the separator.
\<close>

definition strip_newline :: "ustring \<Rightarrow> ustring" where
  "strip_newline line = (if line \<noteq> [] \<and> last line = 10 then butlast line else line)"

definition reparse :: "ustring \<Rightarrow> ustring \<Rightarrow> ustring list list" where
  "reparse text sep = map (\<lambda>line. split_at sep (strip_newline line)) (file_lines text)"

subsection \<open>Inputs on which the engine is evaluated\<close>

definition scenario :: "ustring list" where
  "scenario =
     [ascii ''id;dept;team;role;level;salary'' @ [10],
      ascii ''1;Eng;Backend;dev;2;1000'' @ [10],
      ascii ''2;Eng;Frontend;dev;2;3000'' @ [10]]"

definition shared_team :: "ustring list" where
  "shared_team =
     [ascii ''id;dept;team;role;level;salary'' @ [10],
      ascii ''1;Eng;Core;dev;2;1000'' @ [10],
      ascii ''2;Ops;Core;dev;2;3000'' @ [10]]"

definition two_fields :: "ustring list" where
  "two_fields = [ascii ''id;salary'' @ [10], ascii ''1;5000'' @ [10]]"

definition text_salary :: "ustring list" where
  "text_salary =
     [ascii ''id;dept;team;role;level;salary'' @ [10],
      ascii ''1;Eng;Backend;dev;2;high'' @ [10]]"

text \<open>
  \<open>repr_whole\<close> is \<open>str(float)\<close> on the floats whose value is a whole number of
  magnitude below \<open>10 ^ 16\<close>: the digits of the number followed by \<open>.0\<close>. It stands for
  the interpreter's routine where the renderer is evaluated on such floats.
\<close>

definition repr_whole :: "pyfloat \<Rightarrow> ustring" where
  "repr_whole x = str_int \<lfloor>x\<rfloor> @ [46, 48]"

definition one_file :: files where
  "one_file = [ascii ''test.csv'' \<mapsto> concat text_salary]"

definition eng_summary :: "department_summary list" where
  "eng_summary =
     [\<lparr>name = ascii ''Eng'', headcount = 2, salary_range = ascii ''1000 - 3000'',
       average_salary = 2000\<rparr>]"

definition dashed :: "ustring list" where
  "dashed =
     [ascii ''id-dept-team-role-level-salary'' @ [10],
      ascii ''1-Eng-Backend-dev-2-1000'' @ [10],
      ascii ''2-Eng-Frontend-dev-2-3000'' @ [10]]"

definition short_line :: "ustring list" where
  "short_line =
     [ascii ''id;dept;team;role;level;salary'' @ [10],
      ascii ''1;Eng;Backend;dev;2;1000'' @ [10],
      ascii ''2;Eng;Backend;3000'' @ [10]]"

definition short_file :: files where
  "short_file = [ascii ''test.csv'' \<mapsto> concat short_line]"

definition unsorted :: "ustring list" where
  "unsorted =
     [ascii ''id;dept;team;role;level;salary'' @ [10],
      ascii ''1;Ops;Core;dev;2;1000'' @ [10],
      ascii ''2;Eng;Backend;dev;2;3000'' @ [10],
      ascii ''3;Ops;Infra;dev;2;2000'' @ [10]]"

definition unsorted_report :: "department_summary list" where
  "unsorted_report =
     [\<lparr>name = ascii ''Ops'', headcount = 2, salary_range = ascii ''1000 - 2000'',
       average_salary = 1500\<rparr>,
      \<lparr>name = ascii ''Eng'', headcount = 1, salary_range = ascii ''3000 - 3000'',
       average_salary = 3000\<rparr>]"


section \<open>Dictionaries\<close>

lemma dd_modify_keys:
  "map fst (dd_modify dflt f k d) = (if k \<in> fst ` set d then map fst d else map fst d @ [k])"
  by (induction d) (force simp: image_iff)+

lemma dd_modify_key_set: "fst ` set (dd_modify dflt f k d) = insert k (fst ` set d)"
proof -
  have "set (map fst (dd_modify dflt f k d)) = insert k (set (map fst d))"
    unfolding dd_modify_keys by auto
  then show ?thesis by simp
qed

lemma dd_modify_distinct:
  "distinct (map fst d) \<Longrightarrow> distinct (map fst (dd_modify dflt f k d))"
  unfolding dd_modify_keys by auto

lemma dd_modify_map_of:
  "map_of (dd_modify dflt f k d) =
     (map_of d)(k \<mapsto> f (case map_of d k of None \<Rightarrow> dflt | Some v \<Rightarrow> v))"
  by (induction d) (auto simp: fun_eq_iff)

lemma value_at_dd_modify:
  "value_at dflt (dd_modify dflt f k d) k' =
     (if k' = k then f (value_at dflt d k) else value_at dflt d k')"
  by (simp add: value_at_def dd_modify_map_of)

lemma value_at_member:
  "distinct (map fst d) \<Longrightarrow> (k, v) \<in> set d \<Longrightarrow> value_at dflt d k = v"
  by (simp add: value_at_def)

section \<open>Properties of the hierarchy builder\<close>

lemma hierarchy_record_error: "hierarchy_record l sep = Inl e \<Longrightarrow> e = ValueError"
  by (auto simp: hierarchy_record_def py_split_def split: if_splits list.splits)

lemma hierarchy_record_few:
  "py_split l sep = Inr cols \<Longrightarrow> length cols < 3 \<Longrightarrow> hierarchy_record l sep = Inl ValueError"
  by (auto simp: hierarchy_record_def split: list.splits)

lemma hierarchy_record_enough:
  "py_split l sep = Inr cols \<Longrightarrow> 3 \<le> length cols \<Longrightarrow> \<exists>d t. hierarchy_record l sep = Inr (d, t)"
  by (auto simp: hierarchy_record_def split: list.splits)

lemma hierarchy_loop_error:
  "l \<in> set ls \<Longrightarrow> hierarchy_record l sep = Inl e \<Longrightarrow> hierarchy_loop sep ls h0 = Inl ValueError"
proof (induction ls arbitrary: h0)
  case Nil
  then show ?case by simp
next
  case (Cons a ls)
  show ?case
  proof (cases "hierarchy_record a sep")
    case (Inl e')
    then show ?thesis using hierarchy_record_error[OF Inl] by simp
  next
    case (Inr r)
    with Cons.prems have "l \<in> set ls" by auto
    from Cons.IH[OF this Cons.prems(2)] Inr show ?thesis by (simp split: prod.splits)
  qed
qed

lemma hierarchy_loop_total:
  "\<forall>l \<in> set ls. \<exists>r. hierarchy_record l sep = Inr r \<Longrightarrow> \<exists>h. hierarchy_loop sep ls h0 = Inr h"
  by (induction ls arbitrary: h0) (auto split: sum.splits)

lemma hierarchy_loop_result:
  assumes "hierarchy_loop sep ls h0 = Inr h" and "distinct (map fst h0)"
  shows "distinct (map fst h)
    \<and> fst ` set h = fst ` set h0 \<union> {d. \<exists>l \<in> set ls. \<exists>t. hierarchy_record l sep = Inr (d, t)}
    \<and> (\<forall>d. value_at {} h d
          = value_at {} h0 d \<union> {t. \<exists>l \<in> set ls. hierarchy_record l sep = Inr (d, t)})"
  using assms
proof (induction ls arbitrary: h0)
  case Nil
  then show ?case by simp
next
  case (Cons a ls)
  from Cons.prems(1) obtain d0 t0 where rec: "hierarchy_record a sep = Inr (d0, t0)"
    by (auto split: sum.splits)
  let ?h1 = "dd_modify {} (insert t0) d0 h0"
  from Cons.prems(1) rec have run: "hierarchy_loop sep ls ?h1 = Inr h" by simp
  have dist: "distinct (map fst ?h1)" using Cons.prems(2) by (rule dd_modify_distinct)
  note IH = Cons.IH[OF run dist]
  show ?case
  proof (intro conjI allI)
    show "distinct (map fst h)" using IH by simp
    show "fst ` set h = fst ` set h0 \<union> {d. \<exists>l \<in> set (a # ls). \<exists>t. hierarchy_record l sep = Inr (d, t)}"
      using IH rec by (auto simp: dd_modify_key_set)
    fix d
    show "value_at {} h d = value_at {} h0 d \<union> {t. \<exists>l \<in> set (a # ls). hierarchy_record l sep = Inr (d, t)}"
      using IH rec by (auto simp: value_at_dd_modify)
  qed
qed

lemma hierarchy_record_iff:
  "hierarchy_record l sep = Inr (d, t) \<longleftrightarrow>
     sep \<noteq> [] \<and> 3 \<le> length (split_at sep l) \<and> d = split_at sep l ! 1 \<and> t = split_at sep l ! 2"
  by (auto simp: hierarchy_record_def py_split_def split: list.splits)

lemma hierarchy_result:
  assumes "generate_hierarchy file sep = Inr h"
  shows "(\<forall>l \<in> set (drop 1 file). 3 \<le> length (split_at sep l))
    \<and> distinct (map fst h)
    \<and> fst ` set h = (\<lambda>l. split_at sep l ! 1) ` set (drop 1 file)
    \<and> (\<forall>(d, ts) \<in> set h.
          ts = (\<lambda>l. split_at sep l ! 2) ` {l \<in> set (drop 1 file). split_at sep l ! 1 = d})"
proof -
  from assms have run: "hierarchy_loop sep (drop 1 file) [] = Inr h"
    by (simp add: generate_hierarchy_def)
  have parsed: "\<exists>r. hierarchy_record l sep = Inr r" if "l \<in> set (drop 1 file)" for l
  proof (cases "hierarchy_record l sep")
    case (Inl e)
    from hierarchy_loop_error[OF that Inl] run show ?thesis by simp
  next
    case (Inr r)
    then show ?thesis by blast
  qed
  have fields: "sep \<noteq> [] \<and> 3 \<le> length (split_at sep l)" if "l \<in> set (drop 1 file)" for l
    using parsed[OF that] by (auto simp: hierarchy_record_iff)
  note res = hierarchy_loop_result[OF run, simplified]
  have keys: "fst ` set h = (\<lambda>l. split_at sep l ! 1) ` set (drop 1 file)"
  proof -
    have "fst ` set h = {d. \<exists>l \<in> set (drop 1 file). \<exists>t. hierarchy_record l sep = Inr (d, t)}"
      using res by simp
    also have "\<dots> = (\<lambda>l. split_at sep l ! 1) ` set (drop 1 file)"
      using fields by (auto simp: hierarchy_record_iff)
    finally show ?thesis .
  qed
  have teams: "ts = (\<lambda>l. split_at sep l ! 2) ` {l \<in> set (drop 1 file). split_at sep l ! 1 = d}"
    if "(d, ts) \<in> set h" for d ts
  proof -
    have "ts = value_at {} h d"
      using value_at_member[of h d ts "{}"] res that by simp
    also have "\<dots> = {t. \<exists>l \<in> set (drop 1 file). hierarchy_record l sep = Inr (d, t)}"
      using res by (simp add: value_at_def)
    also have "\<dots> = (\<lambda>l. split_at sep l ! 2) ` {l \<in> set (drop 1 file). split_at sep l ! 1 = d}"
      using fields by (auto simp: hierarchy_record_iff)
    finally show ?thesis .
  qed
  show ?thesis using fields res keys teams by blast
qed

text \<open>
  C6. When \<open>generate_hierarchy\<close> returns, every data line (every line but line 0) had
  three fields or more, the keys of the hierarchy are distinct and are exactly the
  department values (field 1) of the data lines, and the set kept under a department is
  exactly the set of the team values (field 2) of the data lines of that department: a
  (department, team) pair that occurs on several lines is one member.
\<close>

theorem hierarchy_departments_and_teams:
  assumes "generate_hierarchy file sep = Inr h"
  shows "(\<forall>l \<in> set (drop 1 file). 3 \<le> length (split_at sep l))
    \<and> distinct (map fst h)
    \<and> fst ` set h = (\<lambda>l. split_at sep l ! 1) ` set (drop 1 file)
    \<and> (\<forall>(d, ts) \<in> set h.
          ts = (\<lambda>l. split_at sep l ! 2) ` {l \<in> set (drop 1 file). split_at sep l ! 1 = d})"
  using assms by (rule hierarchy_result)

lemma scenario_hierarchy:
  "generate_hierarchy scenario (ascii '';'') =
     Inr [(ascii ''Eng'', {ascii ''Backend'', ascii ''Frontend''})]"
  by code_simp

theorem hierarchy_departments_and_teams_witness:
  "generate_hierarchy scenario (ascii '';'')
     = Inr [(ascii ''Eng'', {ascii ''Backend'', ascii ''Frontend''})]
   \<and> fst ` set [(ascii ''Eng'', {ascii ''Backend'', ascii ''Frontend''})]
     = (\<lambda>l. split_at (ascii '';'') l ! 1) ` set (drop 1 scenario)
   \<and> {ascii ''Backend'', ascii ''Frontend''}
     = (\<lambda>l. split_at (ascii '';'') l ! 2)
         ` {l \<in> set (drop 1 scenario). split_at (ascii '';'') l ! 1 = ascii ''Eng''}"
  using hierarchy_departments_and_teams[OF scenario_hierarchy] scenario_hierarchy
  by simp

text \<open>
  C7 as stated fails: nothing in the loop keeps a team name from entering the sets of two
  departments. On \<open>shared_team\<close> the team \<open>Core\<close> is under \<open>Eng\<close> and under \<open>Ops\<close>.
\<close>

lemma shared_team_hierarchy:
  "generate_hierarchy shared_team (ascii '';'') =
     Inr [(ascii ''Eng'', {ascii ''Core''}), (ascii ''Ops'', {ascii ''Core''})]"
  by code_simp

theorem team_under_two_departments:
  "generate_hierarchy shared_team (ascii '';'') =
     Inr [(ascii ''Eng'', {ascii ''Core''}), (ascii ''Ops'', {ascii ''Core''})]
   \<and> \<not> exclusive_teams [(ascii ''Eng'', {ascii ''Core''}), (ascii ''Ops'', {ascii ''Core''})]"
  using shared_team_hierarchy by (simp add: exclusive_teams_def ascii_def)

text \<open>
  C7, amended. When \<open>generate_hierarchy\<close> returns, no team name is a member of the team
  sets of two different departments if and only if no two data lines give the same team
  value (field 2) with different department values (field 1).
\<close>

theorem teams_exclusive_iff:
  assumes "generate_hierarchy file sep = Inr h"
  shows "exclusive_teams h \<longleftrightarrow>
    (\<forall>l1 \<in> set (drop 1 file). \<forall>l2 \<in> set (drop 1 file).
        split_at sep l1 ! 2 = split_at sep l2 ! 2 \<longrightarrow> split_at sep l1 ! 1 = split_at sep l2 ! 1)"
proof -
  note res = hierarchy_result[OF assms]
  have keys: "fst ` set h = (\<lambda>l. split_at sep l ! 1) ` set (drop 1 file)"
    using res by simp
  have teams: "ts = (\<lambda>l. split_at sep l ! 2) ` {l \<in> set (drop 1 file). split_at sep l ! 1 = d}"
    if "(d, ts) \<in> set h" for d ts
    using res that by blast
  show ?thesis
  proof
    assume excl: "exclusive_teams h"
    show "\<forall>l1 \<in> set (drop 1 file). \<forall>l2 \<in> set (drop 1 file).
        split_at sep l1 ! 2 = split_at sep l2 ! 2 \<longrightarrow> split_at sep l1 ! 1 = split_at sep l2 ! 1"
    proof (intro ballI impI)
      fix l1 l2
      assume l1: "l1 \<in> set (drop 1 file)" and l2: "l2 \<in> set (drop 1 file)"
        and same: "split_at sep l1 ! 2 = split_at sep l2 ! 2"
      from l1 keys obtain ts1 where m1: "(split_at sep l1 ! 1, ts1) \<in> set h"
        by (metis (no_types, lifting) image_iff prod.collapse)
      from l2 keys obtain ts2 where m2: "(split_at sep l2 ! 1, ts2) \<in> set h"
        by (metis (no_types, lifting) image_iff prod.collapse)
      have "split_at sep l1 ! 2 \<in> ts1" using teams[OF m1] l1 by blast
      moreover have "split_at sep l1 ! 2 \<in> ts2" using teams[OF m2] l2 same by auto
      ultimately have "ts1 \<inter> ts2 \<noteq> {}" by blast
      with excl m1 m2 show "split_at sep l1 ! 1 = split_at sep l2 ! 1"
        unfolding exclusive_teams_def by blast
    qed
  next
    assume inp: "\<forall>l1 \<in> set (drop 1 file). \<forall>l2 \<in> set (drop 1 file).
        split_at sep l1 ! 2 = split_at sep l2 ! 2 \<longrightarrow> split_at sep l1 ! 1 = split_at sep l2 ! 1"
    show "exclusive_teams h"
      unfolding exclusive_teams_def
    proof (intro ballI, clarify)
      fix d1 ts1 d2 ts2
      assume m1: "(d1, ts1) \<in> set h" and m2: "(d2, ts2) \<in> set h" and ne: "d1 \<noteq> d2"
      show "ts1 \<inter> ts2 = {}"
      proof (rule ccontr)
        assume "ts1 \<inter> ts2 \<noteq> {}"
        then obtain t where t1: "t \<in> ts1" and t2: "t \<in> ts2" by blast
        from t1 teams[OF m1] obtain l1 where "l1 \<in> set (drop 1 file)"
          "split_at sep l1 ! 1 = d1" "split_at sep l1 ! 2 = t" by blast
        moreover from t2 teams[OF m2] obtain l2 where "l2 \<in> set (drop 1 file)"
          "split_at sep l2 ! 1 = d2" "split_at sep l2 ! 2 = t" by blast
        ultimately show False using inp ne by metis
      qed
    qed
  qed
qed

lemma scenario_teams:
  "list_all (\<lambda>l1. list_all (\<lambda>l2.
       split_at (ascii '';'') l1 ! 2 = split_at (ascii '';'') l2 ! 2
       \<longrightarrow> split_at (ascii '';'') l1 ! 1 = split_at (ascii '';'') l2 ! 1)
     (drop 1 scenario)) (drop 1 scenario)"
  by (simp add: scenario_def ascii_def)

theorem teams_exclusive_iff_witness:
  "generate_hierarchy scenario (ascii '';'')
     = Inr [(ascii ''Eng'', {ascii ''Backend'', ascii ''Frontend''})]
   \<and> list_all (\<lambda>l1. list_all (\<lambda>l2.
         split_at (ascii '';'') l1 ! 2 = split_at (ascii '';'') l2 ! 2
         \<longrightarrow> split_at (ascii '';'') l1 ! 1 = split_at (ascii '';'') l2 ! 1)
       (drop 1 scenario)) (drop 1 scenario)
   \<and> exclusive_teams [(ascii ''Eng'', {ascii ''Backend'', ascii ''Frontend''})]"
proof -
  have "\<forall>l1 \<in> set (drop 1 scenario). \<forall>l2 \<in> set (drop 1 scenario).
      split_at (ascii '';'') l1 ! 2 = split_at (ascii '';'') l2 ! 2
      \<longrightarrow> split_at (ascii '';'') l1 ! 1 = split_at (ascii '';'') l2 ! 1"
    using scenario_teams unfolding list_all_iff .
  then have "exclusive_teams [(ascii ''Eng'', {ascii ''Backend'', ascii ''Frontend''})]"
    using teams_exclusive_iff[OF scenario_hierarchy] by blast
  then show ?thesis using scenario_hierarchy scenario_teams by blast
qed

section \<open>Lines that the parsers refuse\<close>

lemma salary_record_error: "salary_record to_int l sep = Inl e \<Longrightarrow> e = ValueError"
  by (auto simp: salary_record_def py_split_def split: if_splits list.splits option.splits)

lemma salary_record_iff:
  "salary_record to_int l sep = Inr (d, s) \<longleftrightarrow>
     sep \<noteq> [] \<and> 3 \<le> length (split_at sep l) \<and> d = split_at sep l ! 1
     \<and> to_int (last (split_at sep l)) = Some s"
  by (auto simp: salary_record_def py_split_def split: list.splits option.splits)

lemma salaries_loop_error:
  "l \<in> set ls \<Longrightarrow> salary_record to_int l sep = Inl e
    \<Longrightarrow> salaries_loop to_int sep ls d0 = Inl ValueError"
proof (induction ls arbitrary: d0)
  case Nil
  then show ?case by simp
next
  case (Cons a ls)
  show ?case
  proof (cases "salary_record to_int a sep")
    case (Inl e')
    then show ?thesis using salary_record_error[OF Inl] by simp
  next
    case (Inr r)
    with Cons.prems have "l \<in> set ls" by auto
    from Cons.IH[OF this Cons.prems(2)] Inr show ?thesis by (simp split: prod.splits)
  qed
qed

lemma aggregation_error:
  "l \<in> set (drop 1 file) \<Longrightarrow> salary_record to_int l sep = Inl e
    \<Longrightarrow> generate_report_by_department to_int file sep = Inl ValueError"
  by (simp add: generate_report_by_department_def salaries_loop_error)

lemma hierarchy_error:
  "l \<in> set (drop 1 file) \<Longrightarrow> hierarchy_record l sep = Inl e
    \<Longrightarrow> generate_hierarchy file sep = Inl ValueError"
  by (simp add: generate_hierarchy_def hierarchy_loop_error)

text \<open>
  C9. A data line that splits into fewer than three fields makes both unpackings raise
  \<open>ValueError\<close>, whatever \<open>int\<close> makes of its last field, and with it
  \<open>generate_hierarchy\<close> and \<open>generate_report_by_department\<close>. The witness is a line of
  exactly two fields, which has a field 1 and a last field that \<open>int\<close> accepts.
\<close>

theorem three_fields_required:
  assumes "l \<in> set (drop 1 file)" and "py_split l sep = Inr cols" and "length cols < 3"
  shows "hierarchy_record l sep = Inl ValueError
    \<and> salary_record to_int l sep = Inl ValueError
    \<and> generate_hierarchy file sep = Inl ValueError
    \<and> generate_report_by_department to_int file sep = Inl ValueError"
proof -
  have h: "hierarchy_record l sep = Inl ValueError"
    using assms(2,3) by (rule hierarchy_record_few)
  have s: "salary_record to_int l sep = Inl ValueError"
    using assms(2,3) by (auto simp: salary_record_def split: list.splits)
  show ?thesis
    using h s hierarchy_error[OF assms(1) h] aggregation_error[OF assms(1) s] by simp
qed

lemma two_fields_line:
  "ascii ''1;5000'' @ [10] \<in> set (drop 1 two_fields)
   \<and> py_split (ascii ''1;5000'' @ [10]) (ascii '';'') = Inr [ascii ''1'', ascii ''5000'' @ [10]]
   \<and> py_int (last [ascii ''1'', ascii ''5000'' @ [10]]) = Some 5000"
  by code_simp

theorem three_fields_required_witness:
  "ascii ''1;5000'' @ [10] \<in> set (drop 1 two_fields)
   \<and> py_split (ascii ''1;5000'' @ [10]) (ascii '';'') = Inr [ascii ''1'', ascii ''5000'' @ [10]]
   \<and> length [ascii ''1'', ascii ''5000'' @ [10]] < 3
   \<and> [ascii ''1'', ascii ''5000'' @ [10]] ! 1 = ascii ''5000'' @ [10]
   \<and> py_int (last [ascii ''1'', ascii ''5000'' @ [10]]) = Some 5000
   \<and> generate_hierarchy two_fields (ascii '';'') = Inl ValueError
   \<and> generate_report_by_department py_int two_fields (ascii '';'') = Inl ValueError"
  using two_fields_line
    three_fields_required[of "ascii ''1;5000'' @ [10]" two_fields "ascii '';''"
      "[ascii ''1'', ascii ''5000'' @ [10]]" py_int]
  by simp

text \<open>
  C10. \<open>generate_hierarchy\<close> does not take the conversion \<open>to_int\<close> at all. When every
  data line has three fields or more, it returns a hierarchy, also when the last field of
  some data line is not an integer literal; \<open>generate_report_by_department\<close> raises
  \<open>ValueError\<close> on that same input.
\<close>

theorem hierarchy_ignores_salary:
  assumes "sep \<noteq> []"
    and "\<forall>l \<in> set (drop 1 file). 3 \<le> length (split_at sep l)"
    and "l \<in> set (drop 1 file)"
    and "to_int (last (split_at sep l)) = None"
  shows "(\<exists>h. generate_hierarchy file sep = Inr h)
    \<and> generate_report_by_department to_int file sep = Inl ValueError"
proof -
  have "\<forall>l \<in> set (drop 1 file). \<exists>r. hierarchy_record l sep = Inr r"
    using assms(1,2) by (simp add: hierarchy_record_iff)
  then have ok: "\<exists>h. generate_hierarchy file sep = Inr h"
    unfolding generate_hierarchy_def by (rule hierarchy_loop_total)
  have "salary_record to_int l sep = Inl ValueError"
  proof (cases "salary_record to_int l sep")
    case (Inl e)
    then show ?thesis using salary_record_error by blast
  next
    case (Inr r)
    then show ?thesis using assms(4) by (cases r) (simp add: salary_record_iff)
  qed
  from aggregation_error[OF assms(3) this] ok show ?thesis by simp
qed

lemma text_salary_line:
  "ascii '';'' \<noteq> []
   \<and> list_all (\<lambda>l. 3 \<le> length (split_at (ascii '';'') l)) (drop 1 text_salary)
   \<and> ascii ''1;Eng;Backend;dev;2;high'' @ [10] \<in> set (drop 1 text_salary)
   \<and> py_int (last (split_at (ascii '';'') (ascii ''1;Eng;Backend;dev;2;high'' @ [10]))) = None"
  by code_simp

lemma text_salary_hierarchy:
  "generate_hierarchy text_salary (ascii '';'') = Inr [(ascii ''Eng'', {ascii ''Backend''})]"
  by code_simp

theorem hierarchy_ignores_salary_witness:
  "ascii '';'' \<noteq> []
   \<and> list_all (\<lambda>l. 3 \<le> length (split_at (ascii '';'') l)) (drop 1 text_salary)
   \<and> ascii ''1;Eng;Backend;dev;2;high'' @ [10] \<in> set (drop 1 text_salary)
   \<and> py_int (last (split_at (ascii '';'') (ascii ''1;Eng;Backend;dev;2;high'' @ [10]))) = None
   \<and> generate_hierarchy text_salary (ascii '';'') = Inr [(ascii ''Eng'', {ascii ''Backend''})]
   \<and> generate_report_by_department py_int text_salary (ascii '';'') = Inl ValueError"
  using text_salary_line text_salary_hierarchy
    hierarchy_ignores_salary[of "ascii '';''" text_salary
      "ascii ''1;Eng;Backend;dev;2;high'' @ [10]" py_int]
  unfolding list_all_iff by blast

section \<open>Saving a report\<close>

text \<open>
  C5 as stated fails: saving an empty report raises \<open>IndexError\<close>, not
  \<open>EmptyReportError\<close>, and it does so with the output file already created empty.
\<close>

theorem save_empty_report_error:
  "fst (save_department_report repr_whole [] (ascii ''result.csv'') (ascii '';'') Map.empty)
     = Inl IndexError
   \<and> fst (save_department_report repr_whole [] (ascii ''result.csv'') (ascii '';'') Map.empty)
     \<noteq> Inl EmptyReportError
   \<and> snd (save_department_report repr_whole [] (ascii ''result.csv'') (ascii '';'') Map.empty)
       (ascii ''result.csv'') = Some []"
  by (simp add: save_department_report_def)

text \<open>
  C5, amended. Saving an empty report raises \<open>IndexError\<close> (from
  \<open>departments_list[0]\<close>) after \<open>open\<close> has created or emptied the output file; nothing
  is written, so the file is left empty, with no header.
\<close>

theorem save_empty_report:
  "save_department_report float_str [] output_filename sep fs
     = (Inl IndexError, fs(output_filename \<mapsto> []))"
  by (simp add: save_department_report_def)

lemma write_rows_concat:
  "write_rows float_str sep ds written =
     written @ concat (map (\<lambda>d. csv_line (summary_values float_str d) sep @ [10]) ds)"
  by (induction ds arbitrary: written) auto

lemma csv_line_join_gen: "sep = [c] \<Longrightarrow> csv_line items sep = join sep items"
proof (induction sep items rule: join.induct)
  case (1 sep)
  show ?case by (simp add: csv_line_def)
next
  case (2 sep item)
  then show ?case by (simp add: csv_line_def butlast_append)
next
  case (3 sep item next_item rest)
  have ne: "concat (map (\<lambda>item. item @ [c]) (next_item # rest)) \<noteq> []" by simp
  have "csv_line (item # next_item # rest) [c]
      = item @ [c] @ butlast (concat (map (\<lambda>item. item @ [c]) (next_item # rest)))"
    unfolding csv_line_def using ne by (simp add: butlast_append)
  then show ?case using 3 by (simp add: csv_line_def)
qed

lemma csv_line_join: "csv_line items [c] = join [c] items"
  by (simp add: csv_line_join_gen)

lemma save_text:
  "departments_list \<noteq> [] \<Longrightarrow>
     save_department_report float_str departments_list output_filename [c] fs
       = (Inr (), fs(output_filename \<mapsto> delimited_text float_str departments_list [c]))"
  by (cases departments_list)
    (simp_all add: save_department_report_def write_rows_concat csv_line_join
      delimited_text_def)

lemma fold_min_Min: "fold min ss s = Min (set (s # ss))"
  by (simp only: Min.set_eq_fold)

lemma fold_max_Max: "fold max ss s = Max (set (s # ss))"
  by (simp only: Max.set_eq_fold)

lemma range_text:
  assumes "department_entry department salaries = Inr e"
  shows "salary_range e
        = str_int (Min (set salaries)) @ ascii '' - '' @ str_int (Max (set salaries))"
proof (cases salaries)
  case Nil
  with assms show ?thesis by (simp add: department_entry_def)
next
  case (Cons s ss)
  with assms have "salary_range e = str_int (fold min ss s) @ [32, 45, 32] @ str_int (fold max ss s)"
    by (auto simp: department_entry_def split: sum.splits)
  then show ?thesis unfolding fold_min_Min fold_max_Max Cons by (simp add: ascii_def)
qed

text \<open>
  C3. The first line of the file should be the four labels joined by the separator with
  the trailing separator stripped, and every further line the four values of an entry
  joined by the separator with the trailing separator stripped. The code appends the
  separator after every item and then removes it with \<open>line[:-1]\<close>, which drops one code
  point: with the separator \<open>::\<close> every line written keeps the first character of its
  trailing separator, and the file is not the delimited text.
\<close>

theorem two_character_separator:
  "snd (save_department_report repr_whole eng_summary (ascii ''result.csv'') (ascii ''::'')
          Map.empty) (ascii ''result.csv'')
     = Some (join (ascii ''::'') labels @ ascii '':'' @ [10]
             @ ascii ''Eng::2::1000 - 3000::2000.0:'' @ [10])
   \<and> snd (save_department_report repr_whole eng_summary (ascii ''result.csv'') (ascii ''::'')
          Map.empty) (ascii ''result.csv'')
     \<noteq> Some (delimited_text repr_whole eng_summary (ascii ''::''))
   \<and> delimited_text repr_whole eng_summary (ascii ''::'')
     = join (ascii ''::'') labels @ [10] @ ascii ''Eng::2::1000 - 3000::2000.0'' @ [10]"
  by (simp add: eng_summary_def save_department_report_def csv_line_def summary_values_def
      delimited_text_def repr_whole_def str_int_def str_nat.simps labels_def ascii_def)

text \<open>
  With a separator of exactly one character the slice removes the whole trailing
  separator: for a non-empty report the file written is the four labels joined by the
  separator, then one line per entry with its four values joined by the separator, in the
  order of the labels, each line ended by \<open>\n\<close>. The range value is written as the entry
  holds it; an entry built by the aggregator holds the text of the least salary,
  \<open>' - '\<close>, and the text of the greatest.
\<close>

lemma file_rendering:
  assumes "departments_list \<noteq> []"
  shows "save_department_report float_str departments_list output_filename [c] fs
       = (Inr (), fs(output_filename \<mapsto> delimited_text float_str departments_list [c]))
    \<and> (\<forall>department salaries e. department_entry department salaries = Inr e
          \<longrightarrow> salary_range e
              = str_int (Min (set salaries)) @ ascii '' - '' @ str_int (Max (set salaries)))"
  using assms
  by (cases departments_list)
    (simp_all add: save_department_report_def write_rows_concat csv_line_join
      delimited_text_def range_text)

lemma file_rendering_semicolon:
  "eng_summary \<noteq> []
   \<and> save_department_report repr_whole eng_summary (ascii ''result.csv'') (ascii '';'') Map.empty
       = (Inr (), [ascii ''result.csv'' \<mapsto> delimited_text repr_whole eng_summary (ascii '';'')])"
proof -
  have ne: "eng_summary \<noteq> []" by (simp add: eng_summary_def)
  have sep: "ascii '';'' = [59]" by (simp add: ascii_def)
  from file_rendering[OF ne, of repr_whole "ascii ''result.csv''" 59 Map.empty] ne sep
  show ?thesis by simp
qed

lemma split_at_no_sep: "c \<notin> set v \<Longrightarrow> split_at [c] v = [v]"
  by (induction v) auto

lemma split_at_field: "c \<notin> set v \<Longrightarrow> split_at [c] (v @ c # rest) = v # split_at [c] rest"
  by (induction v) auto

lemma split_at_join:
  "items \<noteq> [] \<Longrightarrow> \<forall>v \<in> set items. c \<notin> set v \<Longrightarrow> split_at [c] (join [c] items) = items"
proof (induction items)
  case Nil
  then show ?case by simp
next
  case (Cons v items)
  show ?case
  proof (cases items)
    case Nil
    with Cons.prems show ?thesis by (simp add: split_at_no_sep)
  next
    case (Cons w ws)
    with Cons.prems Cons.IH show ?thesis by (simp add: split_at_field)
  qed
qed

lemma join_no_newline:
  "c \<noteq> n \<Longrightarrow> \<forall>v \<in> set items. n \<notin> set v \<Longrightarrow> n \<notin> set (join [c] items)"
  by (induction "[c]" items rule: join.induct) auto

lemma file_lines_line: "10 \<notin> set l \<Longrightarrow> file_lines (l @ 10 # rest) = (l @ [10]) # file_lines rest"
  by (induction l) auto

lemma file_lines_concat:
  "\<forall>l \<in> set ls. 10 \<notin> set l \<Longrightarrow> file_lines (concat (map (\<lambda>l. l @ [10]) ls)) = map (\<lambda>l. l @ [10]) ls"
  by (induction ls) (auto simp: file_lines_line)

lemma strip_newline_line: "strip_newline (l @ [10]) = l"
  by (simp add: strip_newline_def)

lemma reparse_lines:
  assumes "\<forall>l \<in> set ls. 10 \<notin> set l"
  shows "reparse (concat (map (\<lambda>l. l @ [10]) ls)) sep = map (split_at sep) ls"
  unfolding reparse_def file_lines_concat[OF assms]
  by (simp add: strip_newline_line comp_def)

lemma delimited_text_lines:
  "delimited_text float_str ds sep
     = concat (map (\<lambda>l. l @ [10])
         (join sep labels # map (\<lambda>d. join sep (summary_values float_str d)) ds))"
  by (simp add: delimited_text_def comp_def)

lemma labels_no_newline: "\<forall>v \<in> set labels. 10 \<notin> set v"
  by (simp add: labels_def)

lemma labels_nonempty: "labels \<noteq> []"
  by (simp add: labels_def)

lemma summary_values_nonempty: "summary_values float_str d \<noteq> []"
  by (simp add: summary_values_def)

text \<open>
  C4 as stated fails when the separator occurs in a value. With \<open>-\<close> as the separator
  the aggregator's range text \<open>1000 - 3000\<close> is read back as two fields.
\<close>

lemma true_div_4000_2: "true_div 4000 2 = Inr 2000"
  by code_simp

lemma dashed_report: "generate_report_by_department py_int dashed (ascii ''-'') = Inr eng_summary"
  by (simp add: dashed_def generate_report_by_department_def salary_record_def py_split_def
      py_int_def strip_def is_space_def is_digit_def int_body_def department_entry_def
      true_div_4000_2 eng_summary_def str_int_def str_nat.simps ascii_def)

theorem separator_in_range_text:
  "generate_report_by_department py_int dashed (ascii ''-'') = Inr eng_summary
   \<and> map_option (\<lambda>text. reparse text (ascii ''-''))
        (snd (save_department_report repr_whole eng_summary (ascii ''result.csv'') (ascii ''-'')
                Map.empty) (ascii ''result.csv''))
       = Some [labels, [ascii ''Eng'', ascii ''2'', ascii ''1000 '', ascii '' 3000'', ascii ''2000.0'']]
   \<and> [labels, [ascii ''Eng'', ascii ''2'', ascii ''1000 '', ascii '' 3000'', ascii ''2000.0'']]
       \<noteq> labels # map (summary_values repr_whole) eng_summary"
  using dashed_report
  by (simp add: eng_summary_def save_department_report_def csv_line_def summary_values_def
      repr_whole_def str_int_def str_nat.simps reparse_def strip_newline_def labels_def
      ascii_def)

text \<open>
  C4, amended. For a non-empty report and a separator that is one character, not the line
  end, when no value of the report as rendered (name, count, range text, average) contains
  the separator or a line end, saving succeeds and reading the file back gives, after the
  first line, exactly the four rendered values of every entry, in order; the first line
  reads back as the four labels when the separator occurs in no label.
\<close>

theorem round_trip:
  assumes "departments_list \<noteq> []"
    and "c \<noteq> 10"
    and "\<forall>d \<in> set departments_list. \<forall>v \<in> set (summary_values float_str d).
           c \<notin> set v \<and> 10 \<notin> set v"
  shows "fst (save_department_report float_str departments_list output_filename [c] fs) = Inr ()
    \<and> map_option (\<lambda>text. drop 1 (reparse text [c]))
         (snd (save_department_report float_str departments_list output_filename [c] fs)
            output_filename)
       = Some (map (summary_values float_str) departments_list)
    \<and> ((\<forall>v \<in> set labels. c \<notin> set v) \<longrightarrow>
        map_option (\<lambda>text. take 1 (reparse text [c]))
          (snd (save_department_report float_str departments_list output_filename [c] fs)
             output_filename)
        = Some [labels])"
proof -
  let ?text = "delimited_text float_str departments_list [c]"
  let ?rows = "join [c] labels # map (\<lambda>d. join [c] (summary_values float_str d)) departments_list"
  note saved = save_text[OF assms(1), of float_str output_filename c fs]
  have "10 \<notin> set (join [c] labels)"
    using assms(2) labels_no_newline by (rule join_no_newline)
  moreover have "10 \<notin> set (join [c] (summary_values float_str d))"
    if "d \<in> set departments_list" for d
    using assms(2,3) that by (intro join_no_newline) auto
  ultimately have no_nl: "\<forall>l \<in> set ?rows. 10 \<notin> set l"
    by auto
  have parsed: "reparse ?text [c] = map (split_at [c]) ?rows"
    unfolding delimited_text_lines using no_nl by (rule reparse_lines)
  have rows: "drop 1 (reparse ?text [c]) = map (summary_values float_str) departments_list"
    unfolding parsed using assms(3) by (simp add: split_at_join summary_values_nonempty)
  have header: "take 1 (reparse ?text [c]) = [labels]" if "\<forall>v \<in> set labels. c \<notin> set v"
    unfolding parsed using that by (simp add: split_at_join labels_nonempty)
  show ?thesis using rows header by (simp add: saved)
qed

lemma eng_summary_fields:
  "eng_summary \<noteq> [] \<and> (59::nat) \<noteq> 10
   \<and> list_all (\<lambda>d. list_all (\<lambda>v. 59 \<notin> set v \<and> 10 \<notin> set v) (summary_values repr_whole d))
         eng_summary
   \<and> list_all (\<lambda>v. 59 \<notin> set v) labels
   \<and> map (summary_values repr_whole) eng_summary
       = [[ascii ''Eng'', ascii ''2'', ascii ''1000 - 3000'', ascii ''2000.0'']]"
  by (simp add: eng_summary_def summary_values_def repr_whole_def str_int_def str_nat.simps
      labels_def ascii_def)

theorem round_trip_witness:
  "eng_summary \<noteq> [] \<and> (59::nat) \<noteq> 10
   \<and> list_all (\<lambda>d. list_all (\<lambda>v. 59 \<notin> set v \<and> 10 \<notin> set v) (summary_values repr_whole d))
         eng_summary
   \<and> list_all (\<lambda>v. 59 \<notin> set v) labels
   \<and> fst (save_department_report repr_whole eng_summary (ascii ''result.csv'') [59] Map.empty)
       = Inr ()
   \<and> map_option (\<lambda>text. drop 1 (reparse text [59]))
        (snd (save_department_report repr_whole eng_summary (ascii ''result.csv'') [59] Map.empty)
           (ascii ''result.csv''))
       = Some [[ascii ''Eng'', ascii ''2'', ascii ''1000 - 3000'', ascii ''2000.0'']]
   \<and> map_option (\<lambda>text. take 1 (reparse text [59]))
        (snd (save_department_report repr_whole eng_summary (ascii ''result.csv'') [59] Map.empty)
           (ascii ''result.csv''))
       = Some [labels]"
  using eng_summary_fields
    round_trip[of eng_summary 59 repr_whole "ascii ''result.csv''" Map.empty]
  unfolding list_all_iff by simp

section \<open>A run in file mode on a file with a bad line\<close>

lemma salary_record_refused:
  "refused_line to_int l sep \<Longrightarrow> salary_record to_int l sep = Inl ValueError"
  by (auto simp: refused_line_def salary_record_def py_split_def split: list.splits option.splits)

lemma short_line_lines: "file_lines (concat short_line) = short_line"
  by (simp add: short_line_def ascii_def)

lemma short_line_report:
  "generate_report_by_department py_int short_line (ascii '';'') = Inr eng_summary"
  by (simp add: short_line_def generate_report_by_department_def salary_record_def py_split_def
      py_int_def strip_def is_space_def is_digit_def int_body_def department_entry_def
      true_div_4000_2 eng_summary_def str_int_def str_nat.simps ascii_def)

lemma short_line_valid:
  "validate_files py_int (\<lambda>input output. False) short_file (ascii ''test.csv'')
     (ascii ''result.csv'') (ascii '';'') = Inr ()"
  by (simp add: validate_files_def short_file_def second_line_def short_line_lines)
     (simp add: short_line_def py_split_def py_int_def strip_def is_space_def is_digit_def
      int_body_def ascii_def)

text \<open>
  C8 as stated fails for a wrong field count of three or more. The file below passes
  \<open>validate_files\<close>, since its first data line has six fields; its second data line has
  four fields, the last one an integer. The unpacking takes the second field as the
  department and the last as the salary, the run in file mode returns normally and the
  report is written to the output file.
\<close>

theorem four_field_line_is_accepted:
  "validate_files py_int (\<lambda>input output. False) short_file (ascii ''test.csv'')
     (ascii ''result.csv'') (ascii '';'') = Inr ()
   \<and> short_file (ascii ''result.csv'') = None
   \<and> ascii ''2;Eng;Backend;3000'' @ [10]
       \<in> set (drop 1 (file_lines (concat short_line)))
   \<and> length (split_at (ascii '';'') (ascii ''2;Eng;Backend;3000'' @ [10])) = 4
   \<and> wrong_field_count (ascii ''2;Eng;Backend;3000'' @ [10]) (ascii '';'')
   \<and> generate_report py_int repr_whole (\<lambda>teams. []) short_file (ascii ''test.csv'')
         (ascii ''result.csv'') (ascii '';'') (ascii ''3'')
       = (Inr (),
          short_file(ascii ''result.csv'' \<mapsto> delimited_text repr_whole eng_summary (ascii '';'')),
          [])"
proof -
  have sep: "ascii '';'' = [59]" by (simp add: ascii_def)
  have ne: "eng_summary \<noteq> []" by (simp add: eng_summary_def)
  have "generate_report py_int repr_whole (\<lambda>teams. []) short_file (ascii ''test.csv'')
         (ascii ''result.csv'') (ascii '';'') (ascii ''3'')
       = (Inr (),
          short_file(ascii ''result.csv'' \<mapsto> delimited_text repr_whole eng_summary (ascii '';'')),
          [])"
    unfolding generate_report_def
    by (simp add: short_file_def short_line_lines short_line_report)
       (simp add: sep save_text[OF ne] ascii_def)
  moreover have "ascii ''2;Eng;Backend;3000'' @ [10]
       \<in> set (drop 1 (file_lines (concat short_line)))"
    unfolding short_line_lines by (simp add: short_line_def)
  moreover have "length (split_at (ascii '';'') (ascii ''2;Eng;Backend;3000'' @ [10])) = 4"
    by (simp add: ascii_def)
  moreover have "short_file (ascii ''result.csv'') = None"
    by (simp add: short_file_def ascii_def)
  ultimately show ?thesis
    using short_line_valid by (simp add: wrong_field_count_def)
qed

text \<open>
  C8, amended. In file mode (any option but \<open>'1'\<close> and \<open>'2'\<close>), when the input file has
  a data line that splits into fewer than three fields or whose last field is not an
  integer, the run ends with \<open>ValueError\<close>, the file system is what it was before the run
  (the output file is neither created nor emptied nor written), and nothing is printed.
\<close>

theorem refused_line_aborts_before_output:
  assumes "fs input_filename = Some text"
    and "l \<in> set (drop 1 (file_lines text))"
    and "refused_line to_int l sep"
    and "option \<noteq> [49]" and "option \<noteq> [50]"
  shows "generate_report to_int float_str set_iter fs input_filename output_filename sep option
           = (Inl ValueError, fs, [])"
proof -
  have "generate_report_by_department to_int (file_lines text) sep = Inl ValueError"
    using assms(2) salary_record_refused[OF assms(3)] by (rule aggregation_error)
  then show ?thesis using assms(1,4) by (simp add: generate_report_def)
qed

lemma one_file_facts:
  "one_file (ascii ''test.csv'') = Some (concat text_salary)
   \<and> ascii ''1;Eng;Backend;dev;2;high'' @ [10] \<in> set (drop 1 (file_lines (concat text_salary)))
   \<and> refused_line py_int (ascii ''1;Eng;Backend;dev;2;high'' @ [10]) (ascii '';'')
   \<and> ascii ''3'' \<noteq> [49] \<and> ascii ''3'' \<noteq> [50]
   \<and> one_file (ascii ''result.csv'') = None"
  by (simp add: one_file_def text_salary_def refused_line_def py_int_def strip_def is_space_def
      is_digit_def int_body_def ascii_def)

theorem refused_line_aborts_before_output_witness:
  "one_file (ascii ''test.csv'') = Some (concat text_salary)
   \<and> ascii ''1;Eng;Backend;dev;2;high'' @ [10] \<in> set (drop 1 (file_lines (concat text_salary)))
   \<and> refused_line py_int (ascii ''1;Eng;Backend;dev;2;high'' @ [10]) (ascii '';'')
   \<and> ascii ''3'' \<noteq> [49] \<and> ascii ''3'' \<noteq> [50]
   \<and> one_file (ascii ''result.csv'') = None
   \<and> generate_report py_int repr_whole (\<lambda>teams. []) one_file (ascii ''test.csv'')
         (ascii ''result.csv'') (ascii '';'') (ascii ''3'')
       = (Inl ValueError, one_file, [])"
  using one_file_facts
    refused_line_aborts_before_output[of one_file "ascii ''test.csv''" "concat text_salary"
      "ascii ''1;Eng;Backend;dev;2;high'' @ [10]" py_int "ascii '';''" "ascii ''3''"
      repr_whole "\<lambda>teams. []" "ascii ''result.csv''"]
  by blast

section \<open>Rounding to the nearest float\<close>

text \<open>
  Rounding to the nearest float is monotone across every integer of magnitude at most
  \<open>2 ^ 53\<close>, since such an integer is itself a float.
\<close>

lemma round_half_even_lower: "of_int k \<le> x \<Longrightarrow> k \<le> round_half_even x"
proof -
  assume "of_int k \<le> x"
  then have "k \<le> \<lfloor>x\<rfloor>" by (simp add: le_floor_iff)
  then show ?thesis by (simp add: round_half_even_def Let_def)
qed

lemma round_half_even_upper: "x \<le> of_int k \<Longrightarrow> round_half_even x \<le> k"
proof -
  assume le: "x \<le> of_int k"
  then have f: "\<lfloor>x\<rfloor> \<le> k" by (simp add: floor_le_iff)
  have "\<lfloor>x\<rfloor> + 1 \<le> k" if "x - of_int \<lfloor>x\<rfloor> > 0"
  proof -
    from that le have "of_int \<lfloor>x\<rfloor> < (of_int k :: rat)" by linarith
    then have "\<lfloor>x\<rfloor> < k" by simp
    then show ?thesis by simp
  qed
  with f show ?thesis by (auto simp: round_half_even_def Let_def)
qed

lemma ilog2_lower:
  assumes "0 < x"
  shows "power_int 2 (ilog2 x) \<le> x"
proof -
  obtain n d where q: "quotient_of x = (n, d)" by (cases "quotient_of x")
  have d: "0 < d" using quotient_of_denom_pos[OF q] .
  have x: "x = of_int n / of_int d" using quotient_of_div[OF q] .
  have n: "0 < n" using assms d x by (simp add: zero_less_divide_iff)
  define k where "k = bitlen n - bitlen d"
  show ?thesis
  proof (cases "power_int 2 k \<le> x")
    case True
    then show ?thesis by (simp add: ilog2_def q k_def Let_def)
  next
    case False
    then have il: "ilog2 x = k - 1" by (simp add: ilog2_def q k_def Let_def)
    have bn: "1 \<le> bitlen n" using n bitlen_eq_zero_iff[of n] bitlen_nonneg[of n] by linarith
    have bd: "1 \<le> bitlen d" using d bitlen_eq_zero_iff[of d] bitlen_nonneg[of d] by linarith
    have ln: "(2::int) ^ nat (bitlen n - 1) \<le> n" using bitlen_bounds[OF n] by simp
    have ud: "d < (2::int) ^ nat (bitlen d)" using bitlen_bounds[OF d] by simp
    have ln': "(2::rat) ^ nat (bitlen n - 1) \<le> of_int n"
      using ln by (metis of_int_le_iff of_int_numeral of_int_power)
    have ud': "of_int d \<le> (2::rat) ^ nat (bitlen d)"
      using ud by (metis less_imp_le of_int_le_iff of_int_numeral of_int_power)
    have "power_int (2::rat) (k - 1) = 2 ^ nat (bitlen n - 1) / 2 ^ nat (bitlen d)"
    proof -
      define a b where "a = nat (bitlen n - 1)" and "b = nat (bitlen d)"
      have "k - 1 = int a - int b"
        using bn bd by (simp add: k_def a_def b_def)
      moreover have "power_int (2::rat) (int a - int b) = power_int 2 (int a) / power_int 2 (int b)"
        by (rule power_int_diff) simp
      ultimately have "power_int (2::rat) (k - 1) = power_int 2 (int a) / power_int 2 (int b)"
        by simp
      then have "power_int (2::rat) (k - 1) = 2 ^ a / 2 ^ b"
        by (simp only: power_int_of_nat)
      then show ?thesis unfolding a_def b_def .
    qed
    also have "\<dots> \<le> of_int n / of_int d"
    proof (rule frac_le)
      show "(0::rat) \<le> of_int n" using n by simp
      show "(2::rat) ^ nat (bitlen n - 1) \<le> of_int n" by (rule ln')
      show "(0::rat) < of_int d" using d by simp
      show "of_int d \<le> (2::rat) ^ nat (bitlen d)" by (rule ud')
    qed
    finally show ?thesis using il x by simp
  qed
qed

lemma ulp_exponent_zero: "ulp_exponent 0 \<le> 0"
  by code_simp

lemma round_double_big:
  "round_double 9007199254740992 = 9007199254740992"
  "round_double (- 9007199254740992) = - 9007199254740992"
  by code_simp+

lemma round_double_scaled:
  "round_double x = of_int (round_half_even (x / power_int 2 (ulp_exponent x))) * power_int 2 (ulp_exponent x)"
  by (simp add: round_double_def)

lemma small_exponent_int:
  assumes "e \<le> 0"
  shows "of_int m / power_int (2::rat) e = of_int (m * 2 ^ nat (- e))"
proof -
  have "power_int (2::rat) e = inverse (2 ^ nat (- e))"
    using assms by (cases "e = 0") (simp_all add: power_int_def power_one_over inverse_eq_divide)
  then show ?thesis by (simp add: field_simps)
qed

lemma big_exponent:
  assumes "0 < ulp_exponent x"
  shows "x \<noteq> 0" and "power_int 2 (ulp_exponent x) * 2 ^ 52 \<le> \<bar>x\<bar>"
    and "(2::rat) \<le> power_int 2 (ulp_exponent x)"
proof -
  show nz: "x \<noteq> 0" using assms ulp_exponent_zero by auto
  have e: "ulp_exponent x = ilog2 \<bar>x\<bar> - 52" using assms by (simp add: ulp_exponent_def max_def split: if_splits)
  have "power_int (2::rat) (ulp_exponent x) * 2 ^ 52 = power_int 2 (ulp_exponent x + 52)"
    by (simp add: power_int_add)
  also have "\<dots> = power_int 2 (ilog2 \<bar>x\<bar>)" by (simp add: e)
  also have "\<dots> \<le> \<bar>x\<bar>" using nz by (intro ilog2_lower) simp
  finally show "power_int 2 (ulp_exponent x) * 2 ^ 52 \<le> \<bar>x\<bar>" .
  have "(2::rat) ^ 1 \<le> 2 ^ nat (ulp_exponent x)"
    using assms by (intro power_increasing) auto
  then show "(2::rat) \<le> power_int 2 (ulp_exponent x)"
    using assms by (simp add: power_int_def)
qed

lemma round_double_lower:
  assumes "of_int m \<le> x" and "\<bar>m\<bar> \<le> 2 ^ 53"
  shows "of_int m \<le> round_double x"
proof -
  define e where "e = ulp_exponent x"
  define p :: rat where "p = power_int 2 e"
  have p: "0 < p" by (simp add: p_def)
  have rd: "round_double x = of_int (round_half_even (x / p)) * p"
    by (simp add: round_double_def p_def e_def)
  show ?thesis
  proof (cases "e \<le> 0")
    case True
    define k where "k = m * 2 ^ nat (- e)"
    have mk: "of_int m / p = of_int k" unfolding p_def k_def using True by (rule small_exponent_int)
    have "of_int m / p \<le> x / p" using assms(1) p by (simp add: divide_right_mono)
    then have "k \<le> round_half_even (x / p)" unfolding mk by (rule round_half_even_lower)
    then have "of_int k * p \<le> of_int (round_half_even (x / p)) * p"
      using p by (simp add: mult_right_mono)
    moreover have "of_int k * p = of_int m" using mk p by (simp add: field_simps)
    ultimately show ?thesis by (simp add: rd)
  next
    case False
    then have pos: "0 < ulp_exponent x" by (simp add: e_def)
    have big: "x \<noteq> 0" "p * 2 ^ 52 \<le> \<bar>x\<bar>" "2 \<le> p"
      using big_exponent[OF pos] by (simp_all add: p_def e_def)
    show ?thesis
    proof (cases "0 < x")
      case True
      then have "p * 2 ^ 52 \<le> x" using big(2) by simp
      then have "of_int (2 ^ 52) \<le> x / p" using p by (simp add: field_simps)
      then have "2 ^ 52 \<le> round_half_even (x / p)" by (rule round_half_even_lower)
      then have "(2::rat) ^ 52 \<le> of_int (round_half_even (x / p))"
        by (metis of_int_le_iff of_int_numeral of_int_power)
      then have "(2::rat) ^ 52 * 2 \<le> of_int (round_half_even (x / p)) * p"
        using big(3) by (intro mult_mono) auto
      moreover have "of_int m \<le> (2::rat) ^ 53"
      proof -
        have "m \<le> 2 ^ 53" using assms(2) by simp
        then show ?thesis by (metis of_int_le_iff of_int_numeral of_int_power)
      qed
      ultimately show ?thesis by (simp add: rd)
    next
      case False
      with big(1) have neg: "x < 0" by simp
      have "(2::rat) * 2 ^ 52 \<le> p * 2 ^ 52" using big(3) by simp
      with big(2) neg have xle: "x \<le> - (2 ^ 53)" by simp
      have "- (2 ^ 53) \<le> m" using assms(2) by simp
      then have "- (2 ^ 53) \<le> (of_int m :: rat)"
        by (metis of_int_le_iff of_int_minus of_int_numeral of_int_power)
      with xle assms(1) have "x = - (2 ^ 53)" "of_int m = (- (2 ^ 53) :: rat)" by simp_all
      then show ?thesis by (simp add: round_double_big)
    qed
  qed
qed

lemma round_double_upper:
  assumes "x \<le> of_int m" and "\<bar>m\<bar> \<le> 2 ^ 53"
  shows "round_double x \<le> of_int m"
proof -
  define e where "e = ulp_exponent x"
  define p :: rat where "p = power_int 2 e"
  have p: "0 < p" by (simp add: p_def)
  have rd: "round_double x = of_int (round_half_even (x / p)) * p"
    by (simp add: round_double_def p_def e_def)
  show ?thesis
  proof (cases "e \<le> 0")
    case True
    define k where "k = m * 2 ^ nat (- e)"
    have mk: "of_int m / p = of_int k" unfolding p_def k_def using True by (rule small_exponent_int)
    have "x / p \<le> of_int m / p" using assms(1) p by (simp add: divide_right_mono)
    then have "round_half_even (x / p) \<le> k" unfolding mk by (rule round_half_even_upper)
    then have "of_int (round_half_even (x / p)) * p \<le> of_int k * p"
      using p by (simp add: mult_right_mono)
    moreover have "of_int k * p = of_int m" using mk p by (simp add: field_simps)
    ultimately show ?thesis by (simp add: rd)
  next
    case False
    then have pos: "0 < ulp_exponent x" by (simp add: e_def)
    have big: "x \<noteq> 0" "p * 2 ^ 52 \<le> \<bar>x\<bar>" "2 \<le> p"
      using big_exponent[OF pos] by (simp_all add: p_def e_def)
    show ?thesis
    proof (cases "x < 0")
      case True
      then have "p * 2 ^ 52 \<le> - x" using big(2) by simp
      then have "x / p \<le> of_int (- (2 ^ 52))" using p by (simp add: field_simps)
      then have "round_half_even (x / p) \<le> - (2 ^ 52)" by (rule round_half_even_upper)
      then have r: "of_int (round_half_even (x / p)) \<le> (- (2 ^ 52) :: rat)"
        by (metis of_int_le_iff of_int_minus of_int_numeral of_int_power)
      have "of_int (round_half_even (x / p)) * p \<le> (- (2 ^ 52)) * p"
        using r p by (intro mult_right_mono) auto
      also have "\<dots> \<le> (- (2 ^ 52)) * 2" using big(3) by simp
      finally have "of_int (round_half_even (x / p)) * p \<le> - (2 ^ 53)" by simp
      moreover have "- (2 ^ 53) \<le> (of_int m :: rat)"
      proof -
        have "- (2 ^ 53) \<le> m" using assms(2) by simp
        then show ?thesis by (metis of_int_le_iff of_int_minus of_int_numeral of_int_power)
      qed
      ultimately show ?thesis by (simp add: rd)
    next
      case False
      with big(1) have gt: "0 < x" by simp
      have "(2::rat) * 2 ^ 52 \<le> p * 2 ^ 52" using big(3) by simp
      with big(2) gt have xge: "2 ^ 53 \<le> x" by simp
      have "m \<le> 2 ^ 53" using assms(2) by simp
      then have "(of_int m :: rat) \<le> 2 ^ 53"
        by (metis of_int_le_iff of_int_numeral of_int_power)
      with xge assms(1) have "x = 2 ^ 53" "of_int m = (2 ^ 53 :: rat)" by simp_all
      then show ?thesis by (simp add: round_double_big)
    qed
  qed
qed

section \<open>Properties of the aggregator\<close>

lemma sum_list_upper: "\<forall>x \<in> set xs. x \<le> M \<Longrightarrow> sum_list xs \<le> int (length xs) * M"
  by (induction xs) (auto simp: algebra_simps)

lemma sum_list_lower: "\<forall>x \<in> set xs. M \<le> x \<Longrightarrow> int (length xs) * M \<le> sum_list xs"
  by (induction xs) (auto simp: algebra_simps)

lemma mean_bounds:
  assumes "xs \<noteq> []"
  shows "of_int (Min (set xs)) \<le> (of_int (sum_list xs) / of_int (int (length xs)) :: rat)"
    and "(of_int (sum_list xs) / of_int (int (length xs)) :: rat) \<le> of_int (Max (set xs))"
proof -
  have n: "(0::rat) < of_int (int (length xs))" using assms by simp
  have "int (length xs) * Min (set xs) \<le> sum_list xs"
    by (rule sum_list_lower) simp
  then have "(of_int (int (length xs) * Min (set xs)) :: rat) \<le> of_int (sum_list xs)"
    by (simp only: of_int_le_iff)
  then show "of_int (Min (set xs)) \<le> (of_int (sum_list xs) / of_int (int (length xs)) :: rat)"
    using n by (simp add: pos_le_divide_eq mult.commute)
  have "sum_list xs \<le> int (length xs) * Max (set xs)"
    by (rule sum_list_upper) simp
  then have "(of_int (sum_list xs) :: rat) \<le> of_int (int (length xs) * Max (set xs))"
    by (simp only: of_int_le_iff)
  then show "(of_int (sum_list xs) / of_int (int (length xs)) :: rat) \<le> of_int (Max (set xs))"
    using n by (simp add: pos_divide_le_eq mult.commute)
qed

lemma true_div_result:
  "true_div a b = Inr r \<Longrightarrow> b \<noteq> 0 \<and> r = round_double (of_int a / of_int b)"
  by (auto simp: true_div_def Let_def split: if_splits)

lemma department_entry_result:
  assumes "department_entry department salaries = Inr e"
  shows "salaries \<noteq> []" and "name e = department"
    and "headcount e = int (length salaries)"
    and "average_salary e
           = round_double (of_int (sum_list salaries) / of_int (int (length salaries)))"
proof -
  show ne: "salaries \<noteq> []" using assms by (auto simp: department_entry_def)
  then obtain s ss where c: "salaries = s # ss" by (cases salaries) auto
  from assms obtain avg where t: "true_div (sum_list salaries) (int (length salaries)) = Inr avg"
    and e: "e = \<lparr>name = department, headcount = int (length salaries),
        salary_range = str_int (fold min ss s) @ [32, 45, 32] @ str_int (fold max ss s),
        average_salary = avg\<rparr>"
    unfolding department_entry_def c by (auto split: sum.splits)
  show "name e = department" "headcount e = int (length salaries)" by (simp_all add: e)
  show "average_salary e
           = round_double (of_int (sum_list salaries) / of_int (int (length salaries)))"
    using true_div_result[OF t] by (simp add: e)
qed

lemma set_first_seen: "set (first_seen xs) = set xs"
  by (induction xs) auto

lemma distinct_first_seen: "distinct (first_seen xs)"
  by (induction xs) (auto simp: set_first_seen)

lemma filter_first_seen: "filter P (first_seen xs) = first_seen (filter P xs)"
proof (induction xs)
  case Nil
  show ?case by simp
next
  case (Cons x xs)
  have comm: "filter P (filter (\<lambda>y. y \<noteq> x) (first_seen xs))
      = filter (\<lambda>y. y \<noteq> x) (filter P (first_seen xs))"
    by (simp add: conj_commute)
  show ?case
  proof (cases "P x")
    case True
    then show ?thesis using Cons comm by simp
  next
    case False
    have "filter P (filter (\<lambda>y. y \<noteq> x) (first_seen xs)) = filter P (first_seen xs)"
      using False by (auto intro: filter_cong)
    then show ?thesis using False Cons by simp
  qed
qed

lemma salaries_loop_result:
  assumes "salaries_loop to_int sep ls d0 = Inr d" and "distinct (map fst d0)"
  shows "distinct (map fst d)
    \<and> map fst d = map fst d0
        @ first_seen (filter (\<lambda>k. k \<notin> fst ` set d0) (map (\<lambda>l. split_at sep l ! 1) ls))
    \<and> (\<forall>k. value_at [] d k = value_at [] d0 k
          @ List.map_filter (\<lambda>l. if split_at sep l ! 1 = k
               then to_int (last (split_at sep l)) else None) ls)
    \<and> (\<forall>l \<in> set ls. 3 \<le> length (split_at sep l) \<and> to_int (last (split_at sep l)) \<noteq> None)"
  using assms
proof (induction ls arbitrary: d0)
  case Nil
  then show ?case by (simp add: map_filter_simps)
next
  case (Cons a ls)
  from Cons.prems(1) obtain k0 s0 where rec: "salary_record to_int a sep = Inr (k0, s0)"
    by (auto split: sum.splits)
  then have a: "3 \<le> length (split_at sep a)" "k0 = split_at sep a ! 1"
    "to_int (last (split_at sep a)) = Some s0"
    by (simp_all add: salary_record_iff)
  let ?d1 = "dd_modify [] (\<lambda>salaries. salaries @ [s0]) k0 d0"
  from Cons.prems(1) rec have run: "salaries_loop to_int sep ls ?d1 = Inr d" by simp
  have dist: "distinct (map fst ?d1)" using Cons.prems(2) by (rule dd_modify_distinct)
  note IH = Cons.IH[OF run dist]
  have keys: "map fst d = map fst d0
        @ first_seen (filter (\<lambda>k. k \<notin> fst ` set d0) (map (\<lambda>l. split_at sep l ! 1) (a # ls)))"
  proof (cases "k0 \<in> fst ` set d0")
    case True
    then have "insert k0 (fst ` set d0) = fst ` set d0" by auto
    then show ?thesis using IH True a(2) by (simp add: dd_modify_keys dd_modify_key_set)
  next
    case False
    have "filter (\<lambda>k. k \<noteq> k0 \<and> k \<notin> fst ` set d0) xs
        = filter (\<lambda>y. y \<noteq> k0) (filter (\<lambda>k. k \<notin> fst ` set d0) xs)" for xs :: "ustring list"
      by (simp add: conj_commute)
    then show ?thesis
      using IH False a(2) by (simp add: dd_modify_keys dd_modify_key_set filter_first_seen)
  qed
  have vals: "value_at [] d k = value_at [] d0 k
          @ List.map_filter (\<lambda>l. if split_at sep l ! 1 = k
               then to_int (last (split_at sep l)) else None) (a # ls)" for k
    using IH a(2,3) by (simp add: value_at_dd_modify map_filter_simps)
  have lines: "\<forall>l \<in> set (a # ls).
      3 \<le> length (split_at sep l) \<and> to_int (last (split_at sep l)) \<noteq> None"
    using IH a(1,3) by simp
  have "distinct (map fst d)" using IH by blast
  then show ?case using keys vals lines by blast
qed

lemma report_loop_result:
  "report_loop d = Inr report \<Longrightarrow>
     list_all2 (\<lambda>(k, vs) e. department_entry k vs = Inr e) d report"
proof (induction d arbitrary: report)
  case Nil
  then show ?case by simp
next
  case (Cons kv d)
  obtain k vs where kv: "kv = (k, vs)" by (cases kv)
  from Cons.prems obtain e es where "department_entry k vs = Inr e" "report_loop d = Inr es"
    "report = e # es"
    unfolding kv by (auto split: sum.splits)
  then show ?case using Cons.IH kv by simp
qed

lemma report_names:
  "list_all2 (\<lambda>(k, vs) e. department_entry k vs = Inr e) d report \<Longrightarrow> map name report = map fst d"
  by (induction d report rule: list_all2_induct) (auto dest: department_entry_result(2))

lemma report_entry:
  assumes "list_all2 (\<lambda>(k, vs) e. department_entry k vs = Inr e) d report" and "e \<in> set report"
  shows "\<exists>vs. (name e, vs) \<in> set d \<and> department_entry (name e) vs = Inr e"
  using assms
  by (induction d report rule: list_all2_induct)
     (auto dest: department_entry_result(2))

lemma aggregation_result:
  assumes "generate_report_by_department to_int file sep = Inr report"
  shows "map name report = first_seen (map (\<lambda>l. split_at sep l ! 1) (drop 1 file))"
    and "\<forall>l \<in> set (drop 1 file).
           3 \<le> length (split_at sep l) \<and> to_int (last (split_at sep l)) \<noteq> None"
    and "e \<in> set report \<Longrightarrow>
           department_entry (name e) (salaries_of to_int sep file (name e)) = Inr e"
proof -
  from assms obtain d where run: "salaries_loop to_int sep (drop 1 file) [] = Inr d"
    and rep: "report_loop d = Inr report"
    by (auto simp: generate_report_by_department_def split: sum.splits)
  note res = salaries_loop_result[OF run, simplified]
  note all2 = report_loop_result[OF rep]
  show "map name report = first_seen (map (\<lambda>l. split_at sep l ! 1) (drop 1 file))"
    using report_names[OF all2] res by simp
  show "\<forall>l \<in> set (drop 1 file).
           3 \<le> length (split_at sep l) \<and> to_int (last (split_at sep l)) \<noteq> None"
    using res by simp
  show "department_entry (name e) (salaries_of to_int sep file (name e)) = Inr e"
    if "e \<in> set report"
  proof -
    from report_entry[OF all2 that] obtain vs where m: "(name e, vs) \<in> set d"
      and en: "department_entry (name e) vs = Inr e" by blast
    have dist: "distinct (map fst d)" using res by blast
    have "value_at [] d (name e) = vs"
      using dist m by (rule value_at_member)
    moreover have "value_at [] d (name e) = salaries_of to_int sep file (name e)"
      using res by (simp add: salaries_of_def value_at_def)
    ultimately show ?thesis using en by simp
  qed
qed

text \<open>
  C2. When \<open>generate_report_by_department\<close> returns, the names of the entries of the
  report are the departments (field 1) of the data lines, each once, in the order of their
  first occurrence in the input; a department that no data line bears has no entry.
\<close>

theorem departments_in_first_seen_order:
  assumes "generate_report_by_department to_int file sep = Inr report"
  shows "map name report = first_seen (map (\<lambda>l. split_at sep l ! 1) (drop 1 file))
    \<and> distinct (map name report)
    \<and> set (map name report) = (\<lambda>l. split_at sep l ! 1) ` set (drop 1 file)"
  using aggregation_result(1)[OF assms]
  by (simp add: distinct_first_seen set_first_seen)

lemma true_div_examples:
  "true_div 3000 2 = Inr 1500" "true_div 3000 1 = Inr 3000"
  "true_div 9007199254740993 1 = Inr 9007199254740992"
  by code_simp+

lemma unsorted_aggregation:
  "generate_report_by_department py_int unsorted (ascii '';'') = Inr unsorted_report"
  by (simp add: unsorted_def unsorted_report_def generate_report_by_department_def
      salary_record_def py_split_def py_int_def strip_def is_space_def is_digit_def int_body_def
      department_entry_def true_div_examples str_int_def str_nat.simps ascii_def)

theorem departments_in_first_seen_order_witness:
  "generate_report_by_department py_int unsorted (ascii '';'') = Inr unsorted_report
   \<and> map name unsorted_report
     = first_seen (map (\<lambda>l. split_at (ascii '';'') l ! 1) (drop 1 unsorted))
   \<and> map name unsorted_report = [ascii ''Ops'', ascii ''Eng'']"
proof -
  have "map name unsorted_report = [ascii ''Ops'', ascii ''Eng'']"
    by (simp add: unsorted_report_def)
  then show ?thesis
    using departments_in_first_seen_order[OF unsorted_aggregation] unsorted_aggregation
    by simp
qed







lemma salaries_loop_total:
  assumes "sep \<noteq> []"
    and "\<forall>l \<in> set ls. 3 \<le> length (split_at sep l) \<and> to_int (last (split_at sep l)) \<noteq> None"
  shows "\<exists>d. salaries_loop to_int sep ls d0 = Inr d"
  using assms(2)
proof (induction ls arbitrary: d0)
  case Nil
  show ?case by simp
next
  case (Cons a ls)
  from Cons.prems obtain s where "to_int (last (split_at sep a)) = Some s" by auto
  then have "salary_record to_int a sep = Inr (split_at sep a ! 1, s)"
    using Cons.prems assms(1) by (simp add: salary_record_iff)
  then show ?case using Cons by simp
qed

lemma department_entry_total:
  assumes "salaries \<noteq> []" and "\<forall>s \<in> set salaries. \<bar>s\<bar> \<le> 2 ^ 53"
  shows "\<exists>e. department_entry department salaries = Inr e"
proof -
  let ?m = "of_int (sum_list salaries) / of_int (int (length salaries)) :: rat"
  note mean = mean_bounds[OF assms(1)]
  have "Min (set salaries) \<in> set salaries" "Max (set salaries) \<in> set salaries"
    using assms(1) by simp_all
  then have b: "\<bar>Min (set salaries)\<bar> \<le> 2 ^ 53" "\<bar>Max (set salaries)\<bar> \<le> 2 ^ 53"
    using assms(2) by blast+
  have lo: "of_int (Min (set salaries)) \<le> round_double ?m"
    using mean(1) b(1) by (rule round_double_lower)
  have hi: "round_double ?m \<le> of_int (Max (set salaries))"
    using mean(2) b(2) by (rule round_double_upper)
  have "- (2 ^ 53) \<le> Min (set salaries)" "Max (set salaries) \<le> 2 ^ 53" using b by linarith+
  then have "(- (2 ^ 53) :: rat) \<le> of_int (Min (set salaries))"
    "(of_int (Max (set salaries)) :: rat) \<le> 2 ^ 53"
    by (metis of_int_le_iff of_int_minus of_int_numeral of_int_power)+
  then have "\<bar>round_double ?m\<bar> \<le> 2 ^ 53" using lo hi by linarith
  moreover have "(2 ^ 53 :: rat) < 2 ^ 1024" by (rule power_strict_increasing) simp_all
  ultimately have "\<not> 2 ^ 1024 \<le> \<bar>round_double ?m\<bar>" by linarith
  moreover have "int (length salaries) \<noteq> 0" using assms(1) by simp
  ultimately have td: "true_div (sum_list salaries) (int (length salaries)) = Inr (round_double ?m)"
    unfolding true_div_def Let_def by (simp only: if_False)
  obtain s ss where "salaries = s # ss" using assms(1) by (cases salaries) auto
  then show ?thesis
    unfolding department_entry_def td by (simp only: list.case sum.case) blast
qed

lemma report_loop_total:
  "\<forall>(k, vs) \<in> set d. vs \<noteq> [] \<and> (\<forall>s \<in> set vs. \<bar>s\<bar> \<le> 2 ^ 53)
     \<Longrightarrow> \<exists>report. report_loop d = Inr report"
proof (induction d)
  case Nil
  show ?case by simp
next
  case (Cons kv d)
  obtain k vs where kv: "kv = (k, vs)" by (cases kv)
  from Cons.prems have "vs \<noteq> []" "\<forall>s \<in> set vs. \<bar>s\<bar> \<le> 2 ^ 53" unfolding kv by auto
  then obtain e where "department_entry k vs = Inr e" using department_entry_total by blast
  moreover from Cons obtain es where "report_loop d = Inr es" by auto
  ultimately show ?case unfolding kv by simp
qed

lemma set_map_filter_if:
  "set (List.map_filter (\<lambda>l. if P l then f l else None) ls) = {s. \<exists>l \<in> set ls. P l \<and> f l = Some s}"
  by (induction ls) (auto simp: map_filter_simps split: option.splits)

lemma aggregation_returns:
  assumes "sep \<noteq> []"
    and "\<forall>l \<in> set (drop 1 file). 3 \<le> length (split_at sep l)
           \<and> (\<exists>s. to_int (last (split_at sep l)) = Some s \<and> \<bar>s\<bar> \<le> 2 ^ 53)"
  shows "\<exists>report. generate_report_by_department to_int file sep = Inr report"
proof -
  have "\<forall>l \<in> set (drop 1 file). 3 \<le> length (split_at sep l)
           \<and> to_int (last (split_at sep l)) \<noteq> None"
    using assms(2) by auto
  from salaries_loop_total[OF assms(1) this]
  obtain d where run: "salaries_loop to_int sep (drop 1 file) [] = Inr d" by blast
  note res = salaries_loop_result[OF run, simplified]
  have dist: "distinct (map fst d)" using res by blast
  have "vs \<noteq> [] \<and> (\<forall>s \<in> set vs. \<bar>s\<bar> \<le> 2 ^ 53)" if m: "(k, vs) \<in> set d" for k vs
  proof -
    have v: "value_at [] d k = vs" using dist m by (rule value_at_member)
    have vs: "vs = List.map_filter (\<lambda>l. if split_at sep l ! 1 = k
               then to_int (last (split_at sep l)) else None) (drop 1 file)"
      using res v by (simp add: value_at_def)
    have "k \<in> set (map fst d)" using m by force
    then have "k \<in> (\<lambda>l. split_at sep l ! 1) ` set (drop 1 file)"
      using res by (simp add: set_first_seen)
    then obtain l where l: "l \<in> set (drop 1 file)" "split_at sep l ! 1 = k" by auto
    then obtain s where "to_int (last (split_at sep l)) = Some s" using assms(2) by blast
    then have "s \<in> set vs" unfolding vs set_map_filter_if using l by blast
    then have "vs \<noteq> []" by auto
    moreover have "\<forall>s \<in> set vs. \<bar>s\<bar> \<le> 2 ^ 53"
      unfolding vs set_map_filter_if using assms(2) by fastforce
    ultimately show ?thesis by blast
  qed
  then have "\<forall>(k, vs) \<in> set d. vs \<noteq> [] \<and> (\<forall>s \<in> set vs. \<bar>s\<bar> \<le> 2 ^ 53)" by auto
  from report_loop_total[OF this] obtain report where "report_loop d = Inr report" by blast
  then show ?thesis using run by (simp add: generate_report_by_department_def)
qed

end
